theory Spec2Isabelle
  imports Complex_Main
begin

section \<open>The heat equation solver (pipeline/heatEquationSolver.py)\<close>

text \<open>
  A shallow embedding of the class \<^verbatim>\<open>HeatEquationSolver\<close> and of the stability check of
  \<^verbatim>\<open>notebooks/main.py\<close>.

  Modelling decisions.
  \<^item> A numpy array of shape \<open>(ny, nx)\<close> is a list of \<open>ny\<close> rows, each a list of \<open>nx\<close>
    cells; the shape itself is kept in the fields \<open>ny\<close> and \<open>nx\<close> of the solver.
  \<^item> float64 values are modelled by \<open>real\<close>: rounding, overflow, \<open>inf\<close> and \<open>nan\<close> are
    not modelled, with one exception: the mean of an empty array, which numpy returns as
    \<open>nan\<close>, is \<open>None\<close>, and every comparison with it is false.
  \<^item> Python exceptions are values of the type \<open>error\<close>; a method that can raise returns
    \<open>error + solver\<close>.
  \<^item> Python slices clamp their bounds and count negative bounds from the end; plain
    indices raise \<^verbatim>\<open>IndexError\<close> when out of range.
  \<^item> The attribute \<^verbatim>\<open>mask_inner\<close> does not exist before the first \<^verbatim>\<open>add_radiator\<close>
    (\<open>None\<close>); afterwards it is a numpy view of \<^verbatim>\<open>radiator_mask[1:-1, 1:-1]\<close>, so every
    write to \<^verbatim>\<open>radiator_mask\<close> is seen through it.
  \<^item> The calls into Streamlit made by \<^verbatim>\<open>run\<close> (progress bar, status text) have no effect
    on the solver and are left out; the test \<^verbatim>\<open>i % (steps // 10) == 0\<close> that guards them is
    kept as far as it can raise.
\<close>

subsection \<open>Python and numpy primitives\<close>

datatype error = ZeroDivisionError | ValueError | IndexError | AttributeError

text \<open>Python 3 \<^verbatim>\<open>round(x)\<close>: to the nearest integer, ties to the even one.\<close>

definition py_round :: "real \<Rightarrow> int" where
  "py_round x =
     (let f = \<lfloor>x\<rfloor>; d = x - of_int f
      in if d < 1 / 2 then f else if 1 / 2 < d then f + 1 else if even f then f else f + 1)"

text \<open>The position a slice bound \<open>i\<close> denotes in a sequence of length \<open>n\<close>.\<close>

definition slice_bound :: "nat \<Rightarrow> int \<Rightarrow> nat" where
  "slice_bound n i = (if i < 0 then nat (i + int n) else min (nat i) n)"

text \<open>\<^verbatim>\<open>xs[a:b]\<close>; the bound \<open>None\<close> is an omitted upper bound, \<^verbatim>\<open>xs[a:]\<close>.\<close>

definition slice_end :: "nat \<Rightarrow> int option \<Rightarrow> nat" where
  "slice_end n b = (case b of None \<Rightarrow> n | Some i \<Rightarrow> slice_bound n i)"

definition py_slice :: "int \<Rightarrow> int option \<Rightarrow> 'a list \<Rightarrow> 'a list" where
  "py_slice a b xs =
     take (slice_end (length xs) b - slice_bound (length xs) a)
          (drop (slice_bound (length xs) a) xs)"

definition in_slice :: "nat \<Rightarrow> int \<Rightarrow> int option \<Rightarrow> nat \<Rightarrow> bool" where
  "in_slice n a b k \<longleftrightarrow> slice_bound n a \<le> k \<and> k < slice_end n b"

text \<open>\<^verbatim>\<open>m[a:b, c:d]\<close> read as a value.\<close>

definition slice2 :: "int \<Rightarrow> int option \<Rightarrow> int \<Rightarrow> int option \<Rightarrow> 'a list list \<Rightarrow> 'a list list" where
  "slice2 a b c d m = map (py_slice c d) (py_slice a b m)"

text \<open>A map that also sees the position of each element.\<close>

definition imap :: "(nat \<Rightarrow> 'a \<Rightarrow> 'b) \<Rightarrow> 'a list \<Rightarrow> 'b list" where
  "imap f xs = map2 f [0..<length xs] xs"

text \<open>\<^verbatim>\<open>m[a:b, c:d] = v\<close> for a scalar \<open>v\<close>.\<close>

definition assign_rect :: "int \<Rightarrow> int option \<Rightarrow> int \<Rightarrow> int option \<Rightarrow> 'a \<Rightarrow> 'a list list \<Rightarrow> 'a list list" where
  "assign_rect a b c d v m =
     imap (\<lambda>i row. if in_slice (length m) a b i
                    then imap (\<lambda>j x. if in_slice (length row) c d j then v else x) row
                    else row) m"

text \<open>\<^verbatim>\<open>m[:, :] = v\<close>.\<close>

definition assign_all :: "'a \<Rightarrow> 'a list list \<Rightarrow> 'a list list" where
  "assign_all v m = map (map (\<lambda>_. v)) m"

text \<open>\<^verbatim>\<open>np.ones((ny, nx)) * v\<close>, \<^verbatim>\<open>np.zeros((ny, nx), dtype=bool)\<close>, \<^verbatim>\<open>np.ones(..., dtype=bool)\<close>.\<close>

definition full :: "nat \<Rightarrow> nat \<Rightarrow> 'a \<Rightarrow> 'a list list" where
  "full rows cols v = replicate rows (replicate cols v)"

text \<open>\<^verbatim>\<open>m[1:-1, 1:-1]\<close>.\<close>

definition view_inner :: "'a list list \<Rightarrow> 'a list list" where
  "view_inner m = slice2 1 (Some (- 1)) 1 (Some (- 1)) m"

text \<open>\<^verbatim>\<open>np.sum\<close> and \<^verbatim>\<open>np.any\<close> of a boolean array.\<close>

definition count_true :: "bool list list \<Rightarrow> nat" where
  "count_true m = sum_list (map (\<lambda>row. length (filter id row)) m)"

definition np_any :: "bool list list \<Rightarrow> bool" where
  "np_any m = list_ex (list_ex id) m"

text \<open>\<^verbatim>\<open>a[mask]\<close>: the cells selected by a boolean mask, in row-major order.\<close>

definition select :: "bool list list \<Rightarrow> 'a list list \<Rightarrow> 'a list" where
  "select m a = concat (map2 (\<lambda>mrow arow. map snd (filter fst (zip mrow arow))) m a)"

text \<open>\<^verbatim>\<open>np.mean\<close>; of an empty array it is \<open>nan\<close>.\<close>

definition np_mean :: "real list \<Rightarrow> real option" where
  "np_mean xs = (if xs = [] then None else Some (sum_list xs / real (length xs)))"

text \<open>Elementwise arithmetic on arrays of one shape.\<close>

definition add2 :: "real list list \<Rightarrow> real list list \<Rightarrow> real list list" where
  "add2 a b = map2 (map2 (+)) a b"

definition sub2 :: "real list list \<Rightarrow> real list list \<Rightarrow> real list list" where
  "sub2 a b = map2 (map2 (-)) a b"

definition scale2 :: "real \<Rightarrow> real list list \<Rightarrow> real list list" where
  "scale2 c a = map (map ((*) c)) a"

subsection \<open>Configuration and solver state\<close>

text \<open>The dictionary \<^verbatim>\<open>config\<close>; the three conductivities are optional keys.\<close>

record config =
  cfg_Lx :: real
  cfg_Ly :: real
  cfg_dx :: real
  cfg_dt :: real
  cfg_alpha :: real
  cfg_u_outdoor :: real
  cfg_power :: real
  cfg_pressure :: real
  cfg_r_gas :: real
  cfg_c_specific :: real
  cfg_thermostat_temp :: real
  cfg_u_start :: real
  cfg_lambda_air :: "real option"
  cfg_lambda_wall :: "real option"
  cfg_lambda_window :: "real option"

record solver =
  Lx :: real
  Ly :: real
  dx :: real
  dt :: real
  nx :: nat
  ny :: nat
  alpha :: real
  u_outdoor :: real
  P :: real
  p_pressure :: real
  r_gas :: real
  c_specific :: real
  area :: real
  thermostat_setting :: real
  u :: "real list list"
  lambda_air :: real
  lambda_wall :: real
  lambda_window :: real
  beta_wall :: real
  beta_window :: real
  radiator_mask :: "bool list list"
  heating_factor_per_step :: real
  active_cells_count :: nat
  total_energy :: real
  sensor_mask :: "bool list list"
  window_left :: bool
  window_right :: bool
  mask_inner :: "bool list list option"

text \<open>\<^verbatim>\<open>config.get(key, default)\<close>.\<close>

definition get_default :: "'a option \<Rightarrow> 'a \<Rightarrow> 'a" where
  "get_default v d = (case v of None \<Rightarrow> d | Some x \<Rightarrow> x)"

subsection \<open>\<^verbatim>\<open>__init__\<close>\<close>

text \<open>
  The constructor validates nothing. It raises only where an expression it evaluates
  raises: \<^verbatim>\<open>Lx / dx\<close> and \<^verbatim>\<open>lambda_wall / lambda_air\<close> on a zero divisor, \<^verbatim>\<open>np.ones\<close> on
  a negative dimension.
\<close>

definition init :: "config \<Rightarrow> error + solver" where
  "init c =
     (if cfg_dx c = 0 then Inl ZeroDivisionError
      else
        let ix = py_round (cfg_Lx c / cfg_dx c);
            iy = py_round (cfg_Ly c / cfg_dx c)
        in if iy < 0 \<or> ix < 0 then Inl ValueError
           else
             let l_air = get_default (cfg_lambda_air c) 0.026;
                 l_wall = get_default (cfg_lambda_wall c) 0.5;
                 l_window = get_default (cfg_lambda_window c) 2.0
             in if l_air = 0 then Inl ZeroDivisionError
                else Inr \<lparr>
                  Lx = cfg_Lx c, Ly = cfg_Ly c, dx = cfg_dx c, dt = cfg_dt c,
                  nx = nat ix, ny = nat iy,
                  alpha = cfg_alpha c, u_outdoor = cfg_u_outdoor c, P = cfg_power c,
                  p_pressure = cfg_pressure c, r_gas = cfg_r_gas c,
                  c_specific = cfg_c_specific c, area = cfg_dx c * cfg_dx c,
                  thermostat_setting = cfg_thermostat_temp c,
                  u = full (nat iy) (nat ix) (1 * cfg_u_start c),
                  lambda_air = l_air, lambda_wall = l_wall, lambda_window = l_window,
                  beta_wall = (l_wall / l_air) * cfg_dx c,
                  beta_window = (l_window / l_air) * cfg_dx c,
                  radiator_mask = full (nat iy) (nat ix) False,
                  heating_factor_per_step = 0,
                  active_cells_count = 0,
                  total_energy = 0,
                  sensor_mask = full (nat iy) (nat ix) True,
                  window_left = False, window_right = False,
                  mask_inner = None \<rparr>)"

subsection \<open>\<^verbatim>\<open>set_windows\<close>, \<^verbatim>\<open>clear_radiators\<close>, \<^verbatim>\<open>add_radiator\<close>, \<^verbatim>\<open>set_sensor_region\<close>\<close>

definition set_windows :: "bool \<Rightarrow> bool \<Rightarrow> solver \<Rightarrow> solver" where
  "set_windows left right s = s\<lparr>window_left := left, window_right := right\<rparr>"

text \<open>
  \<^verbatim>\<open>radiator_mask[:, :] = False\<close> writes into the array that \<^verbatim>\<open>mask_inner\<close>, when it
  exists, is a view of.
\<close>

definition clear_radiators :: "solver \<Rightarrow> solver" where
  "clear_radiators s =
     (let rmask = assign_all False (radiator_mask s)
      in s\<lparr>radiator_mask := rmask,
           mask_inner := map_option (\<lambda>_. view_inner rmask) (mask_inner s),
           active_cells_count := 0,
           heating_factor_per_step := 0\<rparr>)"

definition add_radiator :: "real \<Rightarrow> real \<Rightarrow> real \<Rightarrow> real \<Rightarrow> solver \<Rightarrow> error + solver" where
  "add_radiator x_start y_start width height s =
     (if dx s = 0 then Inl ZeroDivisionError
      else
        let ix_start = py_round (x_start / dx s);
            iy_start = py_round (y_start / dx s);
            ix_end = py_round ((x_start + width) / dx s);
            iy_end = py_round ((y_start + height) / dx s);
            ix_end = min ix_end (int (nx s));
            iy_end = min iy_end (int (ny s));
            rmask = assign_rect iy_start (Some iy_end) ix_start (Some ix_end) True (radiator_mask s);
            inner = view_inner rmask;
            cnt = count_true inner;
            s1 = s\<lparr>radiator_mask := rmask, mask_inner := Some inner, active_cells_count := cnt\<rparr>
        in if 0 < cnt
           then
             let power_per_cell = P s / real cnt;
                 base_coeff = (power_per_cell * r_gas s) / (p_pressure s * area s * c_specific s)
             in Inr (s1\<lparr>heating_factor_per_step := base_coeff * dt s\<rparr>)
           else Inr s1)"

definition set_sensor_region :: "real \<Rightarrow> real \<Rightarrow> solver \<Rightarrow> error + solver" where
  "set_sensor_region x_start x_end s =
     (let cleared = assign_all False (sensor_mask s)
      in if dx s = 0 then Inl ZeroDivisionError
         else
           let ix_start = py_round (x_start / dx s);
               ix_end = py_round (x_end / dx s);
               ix_end = min ix_end (int (nx s))
           in Inr (s\<lparr>sensor_mask :=
                        assign_rect 1 (Some (- 1)) ix_start (Some ix_end) True cleared\<rparr>))"

subsection \<open>\<^verbatim>\<open>_apply_boundary_conditions\<close>\<close>

text \<open>The closed form \<^verbatim>\<open>(u_interior + beta * u_outdoor) / (1 + beta)\<close> the method uses six times.\<close>

definition robin :: "real \<Rightarrow> real \<Rightarrow> real \<Rightarrow> real" where
  "robin beta u_out v = (v + beta * u_out) / (1 + beta)"

text \<open>\<^verbatim>\<open>m[:, j]\<close> read, \<^verbatim>\<open>m[:, j] = vals\<close>, \<^verbatim>\<open>m[i, :] = vals\<close> and \<^verbatim>\<open>m[lo:hi, j] = vals\<close>, for indices in range.\<close>

definition get_col :: "nat \<Rightarrow> 'a list list \<Rightarrow> 'a list" where
  "get_col j m = map (\<lambda>row. row ! j) m"

definition set_col :: "nat \<Rightarrow> 'a list \<Rightarrow> 'a list list \<Rightarrow> 'a list list" where
  "set_col j vals m = map2 (\<lambda>row v. row[j := v]) m vals"

definition set_row :: "nat \<Rightarrow> 'a list \<Rightarrow> 'a list list \<Rightarrow> 'a list list" where
  "set_row i vals m = m[i := vals]"

definition set_col_rows :: "nat \<Rightarrow> nat \<Rightarrow> nat \<Rightarrow> 'a list \<Rightarrow> 'a list list \<Rightarrow> 'a list list" where
  "set_col_rows lo hi j vals m =
     imap (\<lambda>i row. if lo \<le> i \<and> i < hi then row[j := vals ! (i - lo)] else row) m"

text \<open>
  The plain indices \<open>0\<close>, \<open>1\<close>, \<open>-1\<close> and \<open>-2\<close> are used on both axes, so the method raises
  \<^verbatim>\<open>IndexError\<close> exactly when an axis is shorter than two; its first statement already
  reads \<^verbatim>\<open>u[:, 1]\<close>. Each assignment evaluates its right-hand side on the array as the
  assignments before it left it.
\<close>

definition apply_boundary_conditions :: "solver \<Rightarrow> error + solver" where
  "apply_boundary_conditions s =
     (if nx s < 2 \<or> ny s < 2 then Inl IndexError
      else
        let wall = robin (beta_wall s) (u_outdoor s);
            window = robin (beta_window s) (u_outdoor s);
            u1 = set_col 0 (map wall (get_col 1 (u s))) (u s);
            u2 = set_col (nx s - 1) (map wall (get_col (nx s - 2) u1)) u1;
            u3 = set_row (ny s - 1) (map wall (u2 ! (ny s - 2))) u2;
            u4 = set_row 0 (map wall (u3 ! 1)) u3;
            window_size = ny s div 2;
            y_start = (ny s - window_size) div 2;
            y_end = y_start + window_size;
            lo = slice_bound (ny s) (int y_start);
            hi = slice_bound (ny s) (int y_end);
            u5 = (if window_left s
                  then set_col_rows lo hi 0
                         (map window (get_col 1 (py_slice (int y_start) (Some (int y_end)) u4))) u4
                  else u4);
            u6 = (if window_right s
                  then set_col_rows lo hi (nx s - 1)
                         (map window (get_col (nx s - 2) (py_slice (int y_start) (Some (int y_end)) u5))) u5
                  else u5)
        in Inr (s\<lparr>u := u6\<rparr>))"

subsection \<open>\<^verbatim>\<open>step\<close>\<close>

text \<open>The thermostat reading: the mean over the sensor mask, or over the whole field.\<close>

definition sense :: "solver \<Rightarrow> real option" where
  "sense s =
     (if np_any (sensor_mask s) then np_mean (select (sensor_mask s) (u s))
      else np_mean (concat (u s)))"

text \<open>\<^verbatim>\<open>current_mean_temp < thermostat_setting\<close>; false for \<open>nan\<close>.\<close>

definition below :: "real option \<Rightarrow> real \<Rightarrow> bool" where
  "below m t = (case m of None \<Rightarrow> False | Some v \<Rightarrow> v < t)"

text \<open>\<^verbatim>\<open>a[m] += b[m]\<close> for arrays of one shape.\<close>

definition add_where :: "bool list list \<Rightarrow> real list list \<Rightarrow> real list list \<Rightarrow> real list list" where
  "add_where m a b =
     map2 (\<lambda>mrow (arow, brow). map2 (\<lambda>c (x, y). if c then x + y else x) mrow (zip arow brow))
          m (zip a b)"

text \<open>\<^verbatim>\<open>a[1:-1, 1:-1] += change\<close>, in place.\<close>

definition add_inner :: "real list list \<Rightarrow> real list list \<Rightarrow> real list list" where
  "add_inner a change =
     imap (\<lambda>i row. if in_slice (length a) 1 (Some (- 1)) i
                    then imap (\<lambda>j x. if in_slice (length row) 1 (Some (- 1)) j
                                      then x + change ! (i - 1) ! (j - 1) else x) row
                    else row) a"

definition laplacian_sum :: "real list list \<Rightarrow> real list list" where
  "laplacian_sum a =
     sub2 (add2 (add2 (add2 (slice2 0 (Some (- 2)) 1 (Some (- 1)) a)
                            (slice2 2 None 1 (Some (- 1)) a))
                      (slice2 1 (Some (- 1)) 0 (Some (- 2)) a))
                (slice2 1 (Some (- 1)) 2 None a))
          (scale2 4 (view_inner a))"

text \<open>
  The body of \<^verbatim>\<open>step\<close> up to and including the in-place update
  \<^verbatim>\<open>u[1:-1, 1:-1] += change\<close>. Everything before that update reads the field as it was
  when \<^verbatim>\<open>step\<close> was called: the Laplacian and the heating term are new arrays.
  \<^verbatim>\<open>dx**2\<close> divides Python floats and raises on zero. Reading \<^verbatim>\<open>self.mask_inner\<close> raises
  \<^verbatim>\<open>AttributeError\<close> while the attribute does not exist.
\<close>

definition update_interior :: "solver \<Rightarrow> error + solver" where
  "update_interior s =
     (let u_inner = view_inner (u s);
          lap = laplacian_sum (u s)
      in if (dx s)\<^sup>2 = 0 then Inl ZeroDivisionError
         else
           let diffusion_factor = (alpha s * dt s) / (dx s)\<^sup>2;
               change = scale2 diffusion_factor lap;
               current_mean_temp = sense s
           in if below current_mean_temp (thermostat_setting s)
              then if 0 < active_cells_count s
                   then (case mask_inner s of
                           None \<Rightarrow> Inl AttributeError
                         | Some mi \<Rightarrow>
                             Inr (s\<lparr>total_energy := total_energy s + P s * dt s,
                                    u := add_inner (u s)
                                           (add_where mi change
                                              (scale2 (heating_factor_per_step s) u_inner))\<rparr>))
                   else Inr (s\<lparr>u := add_inner (u s) change\<rparr>)
              else Inr (s\<lparr>u := add_inner (u s) change\<rparr>))"

text \<open>\<^verbatim>\<open>step\<close>: the update of the interior, then the boundary conditions.\<close>

definition step :: "solver \<Rightarrow> error + solver" where
  "step s =
     (case update_interior s of
        Inl e \<Rightarrow> Inl e
      | Inr s1 \<Rightarrow> apply_boundary_conditions s1)"

subsection \<open>\<^verbatim>\<open>run\<close>\<close>

text \<open>
  The loop \<^verbatim>\<open>for i in range(steps)\<close>. After each \<^verbatim>\<open>step()\<close> it evaluates
  \<^verbatim>\<open>i % (steps // 10)\<close>, which raises when \<^verbatim>\<open>steps // 10\<close> is zero. The first component of
  the result counts the calls of \<^verbatim>\<open>step\<close> that were made; during the loop it is the loop
  variable \<open>i\<close>.
\<close>

fun run_loop :: "int \<Rightarrow> nat \<Rightarrow> nat \<Rightarrow> solver \<Rightarrow> nat \<times> (error + solver)" where
  "run_loop steps i 0 s = (i, Inr s)"
| "run_loop steps i (Suc k) s =
     (case step s of
        Inl e \<Rightarrow> (Suc i, Inl e)
      | Inr s' \<Rightarrow>
          if steps div 10 = 0 then (Suc i, Inl ZeroDivisionError)
          else run_loop steps (Suc i) k s')"

definition run :: "int \<Rightarrow> solver \<Rightarrow> nat \<times> (error + solver)" where
  "run steps s = run_loop steps 0 (nat steps) s"

section \<open>The stability check of the notebook (notebooks/main.py)\<close>

datatype report = Unstable | Okay

text \<open>
  \<^verbatim>\<open>if(dt > 0.34*h**2): print("... niestabilne ...") else: print("Jest okej!")\<close>. The
  diffusivity \<^verbatim>\<open>alpha\<close> of the notebook does not occur in the test.
\<close>

definition stability_check :: "real \<Rightarrow> real \<Rightarrow> report" where
  "stability_check dt0 h = (if dt0 > 0.34 * h\<^sup>2 then Unstable else Okay)"

section \<open>Well-formed solver states\<close>

definition shape_ok :: "nat \<Rightarrow> nat \<Rightarrow> 'a list list \<Rightarrow> bool" where
  "shape_ok rows cols m \<longleftrightarrow> length m = rows \<and> list_all (\<lambda>row. length row = cols) m"

text \<open>
  What the constructor establishes and every method keeps: the three arrays have the
  shape \<open>(ny, nx)\<close>, \<open>dx\<close> is not zero, and \<^verbatim>\<open>mask_inner\<close>, once it exists, is the interior
  of \<^verbatim>\<open>radiator_mask\<close>, of which \<^verbatim>\<open>active_cells_count\<close> is the number of set cells.
\<close>

definition wf :: "solver \<Rightarrow> bool" where
  "wf s \<longleftrightarrow>
     shape_ok (ny s) (nx s) (u s) \<and>
     shape_ok (ny s) (nx s) (radiator_mask s) \<and>
     shape_ok (ny s) (nx s) (sensor_mask s) \<and>
     dx s \<noteq> 0 \<and>
     (case mask_inner s of
        None \<Rightarrow> active_cells_count s = 0
      | Some mi \<Rightarrow> mi = view_inner (radiator_mask s) \<and> active_cells_count s = count_true mi)"

section \<open>Sequences of calls\<close>

text \<open>
  The public operations of the class, as data, so that a history of a solver (which
  methods were called on it since it was constructed) can be spoken of. A call that
  raises ends the sequence with that error.
\<close>

datatype call =
    Set_windows bool bool
  | Clear_radiators
  | Add_radiator real real real real
  | Set_sensor_region real real
  | Step
  | Run int

fun is_add_radiator :: "call \<Rightarrow> bool" where
  "is_add_radiator (Add_radiator x_start y_start width height) = True"
| "is_add_radiator _ = False"

fun apply_call :: "call \<Rightarrow> solver \<Rightarrow> error + solver" where
  "apply_call (Set_windows left right) s = Inr (set_windows left right s)"
| "apply_call Clear_radiators s = Inr (clear_radiators s)"
| "apply_call (Add_radiator x_start y_start width height) s = add_radiator x_start y_start width height s"
| "apply_call (Set_sensor_region x_start x_end) s = set_sensor_region x_start x_end s"
| "apply_call Step s = step s"
| "apply_call (Run steps) s = snd (run steps s)"

fun apply_calls :: "call list \<Rightarrow> solver \<Rightarrow> error + solver" where
  "apply_calls [] s = Inr s"
| "apply_calls (c # cs) s = (case apply_call c s of Inl e \<Rightarrow> Inl e | Inr s' \<Rightarrow> apply_calls cs s')"

section \<open>A configuration to run the model on\<close>

text \<open>
  A room of \<open>lx\<close> by \<open>ly\<close> metres on a grid of step \<open>h\<close>, with time step \<open>t\<close> and
  radiator power \<open>pw\<close>; the field starts at 10, the thermostat is set to 20 and the
  outdoor temperature is 0. The other constants are 1, the window conducts three times
  as well as the wall. It is used only to evaluate the model at concrete inputs.
\<close>

definition example_config :: "real \<Rightarrow> real \<Rightarrow> real \<Rightarrow> real \<Rightarrow> real \<Rightarrow> config" where
  "example_config lx ly h t pw =
     \<lparr>cfg_Lx = lx, cfg_Ly = ly, cfg_dx = h, cfg_dt = t, cfg_alpha = 1, cfg_u_outdoor = 0,
      cfg_power = pw, cfg_pressure = 1, cfg_r_gas = 1, cfg_c_specific = 1,
      cfg_thermostat_temp = 20, cfg_u_start = 10,
      cfg_lambda_air = Some 1, cfg_lambda_wall = Some 1, cfg_lambda_window = Some 3\<rparr>"

text \<open>
  A room of four by four cells without radiators, and the same room with a window in the
  left wall and a radiator on the interior cell in row 1, column 1.
\<close>

definition example_room :: solver where
  "example_room = projr (init (example_config 4 4 1 (1 / 10) 100))"

definition example_heated :: solver where
  "example_heated = projr (add_radiator 1 1 1 1 (set_windows True False example_room))"

text \<open>The heated room of a configuration whose radiator power is negative.\<close>

definition example_cooler :: solver where
  "example_cooler =
     projr (add_radiator 1 1 1 1 (projr (init (example_config 4 4 1 (1 / 10) (- 100)))))"

text \<open>
  Rooms without an interior: one cell, one column and two columns. And the heated room
  with an outdoor temperature of 2 and a window that conducts four times as well as the
  wall.
\<close>

definition example_one_cell :: solver where
  "example_one_cell = projr (init (example_config 1 1 1 (1 / 10) 100))"

definition example_one_column :: solver where
  "example_one_column = projr (init (example_config 1 4 1 (1 / 10) 100))"

definition example_two_columns :: solver where
  "example_two_columns = projr (init (example_config 2 4 1 (1 / 10) 100))"

definition example_windowed :: solver where
  "example_windowed =
     projr (add_radiator 1 1 1 1 (set_windows True False
       (projr (init ((example_config 4 4 1 (1 / 10) 100)
          \<lparr>cfg_u_outdoor := 2, cfg_lambda_window := Some 4\<rparr>)))))"

section \<open>Lemmas on the array primitives\<close>

lemma length_imap [simp]: "length (imap f xs) = length xs"
  by (simp add: imap_def)

lemma nth_imap [simp]: "i < length xs \<Longrightarrow> imap f xs ! i = f i (xs ! i)"
  by (simp add: imap_def)

lemma slice_end_le: "slice_end n b \<le> n"
  by (auto simp: slice_end_def slice_bound_def split: option.splits)

lemma length_py_slice:
  "length (py_slice a b xs) = slice_end (length xs) b - slice_bound (length xs) a"
  using slice_end_le [of "length xs" b] by (simp add: py_slice_def)

lemma nth_py_slice:
  "k < slice_end (length xs) b - slice_bound (length xs) a \<Longrightarrow>
   py_slice a b xs ! k = xs ! (slice_bound (length xs) a + k)"
  using slice_end_le [of "length xs" b] by (simp add: py_slice_def)

lemma shape_okD:
  "shape_ok r c m \<Longrightarrow> length m = r \<and> (\<forall>i<r. length (m ! i) = c)"
  by (auto simp: shape_ok_def list_all_length)

lemma shape_okI:
  "length m = r \<Longrightarrow> (\<And>i. i < r \<Longrightarrow> length (m ! i) = c) \<Longrightarrow> shape_ok r c m"
  by (auto simp: shape_ok_def list_all_length)

lemma slice_inner_bounds:
  "slice_bound n 1 = min 1 n" "slice_end n (Some (- 1)) = n - 1"
  "slice_bound n 0 = 0" "slice_end n (Some (- 2)) = n - 2"
  "slice_bound n 2 = min 2 n" "slice_end n None = n"
  by (auto simp: slice_bound_def slice_end_def)

lemma in_slice_inner: "in_slice n 1 (Some (- 1)) k \<longleftrightarrow> 1 \<le> k \<and> k + 1 < n"
  by (auto simp: in_slice_def slice_inner_bounds)

lemma shape_slice2:
  assumes "shape_ok r c m"
  shows "shape_ok (slice_end r b - slice_bound r a) (slice_end c d - slice_bound c e)
           (slice2 a b e d m)"
proof (rule shape_okI)
  from assms have len: "length m = r" and rows: "\<And>i. i < r \<Longrightarrow> length (m ! i) = c"
    by (auto dest: shape_okD)
  show "length (slice2 a b e d m) = slice_end r b - slice_bound r a"
    by (simp add: slice2_def length_py_slice len)
  fix i assume i: "i < slice_end r b - slice_bound r a"
  then have "slice_bound r a + i < r"
    using slice_end_le [of r b] by simp
  then show "length (slice2 a b e d m ! i) = slice_end c d - slice_bound c e"
    using i by (simp add: slice2_def length_py_slice nth_py_slice len rows)
qed

lemma nth_slice2:
  assumes "shape_ok r c m" and i: "i < slice_end r b - slice_bound r a"
    and j: "j < slice_end c d - slice_bound c e"
  shows "slice2 a b e d m ! i ! j = m ! (slice_bound r a + i) ! (slice_bound c e + j)"
proof -
  from assms have len: "length m = r" and rows: "\<And>i. i < r \<Longrightarrow> length (m ! i) = c"
    by (auto dest: shape_okD)
  have "slice_bound r a + i < r"
    using i slice_end_le [of r b] by simp
  then show ?thesis
    using i j by (simp add: slice2_def length_py_slice nth_py_slice len rows)
qed

lemma slice_len:
  "slice_end n (Some (- 1)) - slice_bound n 1 = n - 2"
  "slice_end n (Some (- 2)) - slice_bound n 0 = n - 2"
  "slice_end n None - slice_bound n 2 = n - 2"
  by (auto simp: slice_bound_def slice_end_def)

lemma slice_start:
  "slice_bound n 0 = 0" "k + 2 \<le> n \<Longrightarrow> slice_bound n 1 = 1" "k + 2 \<le> n \<Longrightarrow> slice_bound n 2 = 2"
  by (auto simp: slice_bound_def)

lemmas shape_slices =
  shape_slice2 [of _ _ _ "Some (- 2)" 0 "Some (- 1)" 1, unfolded slice_len]
  shape_slice2 [of _ _ _ None 2 "Some (- 1)" 1, unfolded slice_len]
  shape_slice2 [of _ _ _ "Some (- 1)" 1 "Some (- 2)" 0, unfolded slice_len]
  shape_slice2 [of _ _ _ "Some (- 1)" 1 None 2, unfolded slice_len]

lemmas nth_slices =
  nth_slice2 [of _ _ _ _ "Some (- 2)" 0 _ "Some (- 1)" 1, unfolded slice_len]
  nth_slice2 [of _ _ _ _ None 2 _ "Some (- 1)" 1, unfolded slice_len]
  nth_slice2 [of _ _ _ _ "Some (- 1)" 1 _ "Some (- 2)" 0, unfolded slice_len]
  nth_slice2 [of _ _ _ _ "Some (- 1)" 1 _ None 2, unfolded slice_len]

lemma shape_view_inner:
  "shape_ok r c m \<Longrightarrow> shape_ok (r - 2) (c - 2) (view_inner m)"
  unfolding view_inner_def
  by (rule shape_slice2 [of _ _ _ "Some (- 1)" 1 "Some (- 1)" 1, unfolded slice_len])

lemma nth_view_inner:
  assumes "shape_ok r c m" "i + 2 < r" "j + 2 < c"
  shows "view_inner m ! i ! j = m ! (i + 1) ! (j + 1)"
proof -
  have "i < r - 2" "j < c - 2" using assms by auto
  then show ?thesis
    unfolding view_inner_def
    using nth_slice2 [of _ _ _ _ "Some (- 1)" 1 _ "Some (- 1)" 1, unfolded slice_len, OF assms(1)]
      slice_start(2) [of i r] slice_start(2) [of j c] assms
    by (simp add: add.commute)
qed

lemma nth_map2_map2:
  "i < length a \<Longrightarrow> i < length b \<Longrightarrow> j < length (a ! i) \<Longrightarrow> j < length (b ! i) \<Longrightarrow>
   map2 (map2 f) a b ! i ! j = f (a ! i ! j) (b ! i ! j)"
  by simp

lemma shape_map2_map2:
  "shape_ok r c a \<Longrightarrow> shape_ok r c b \<Longrightarrow> shape_ok r c (map2 (map2 f) a b)"
  by (rule shape_okI) (auto dest!: shape_okD)

lemma shape_scale2: "shape_ok r c a \<Longrightarrow> shape_ok r c (scale2 k a)"
  by (rule shape_okI) (auto simp: scale2_def dest!: shape_okD)

lemma nth_scale2:
  "shape_ok r c a \<Longrightarrow> i < r \<Longrightarrow> j < c \<Longrightarrow> scale2 k a ! i ! j = k * a ! i ! j"
  by (auto simp: scale2_def dest!: shape_okD)

lemma shape_laplacian_sum:
  assumes "shape_ok r c m"
  shows "shape_ok (r - 2) (c - 2) (laplacian_sum m)"
  unfolding laplacian_sum_def add2_def sub2_def
  by (intro shape_map2_map2 shape_slices shape_scale2 shape_view_inner assms)

lemma nth_laplacian_sum:
  assumes m: "shape_ok r c m" and i: "i + 2 < r" and j: "j + 2 < c"
  shows "laplacian_sum m ! i ! j =
           m ! i ! (j + 1) + m ! (i + 2) ! (j + 1) + m ! (i + 1) ! j + m ! (i + 1) ! (j + 2)
           - 4 * m ! (i + 1) ! (j + 1)"
proof -
  let ?A = "slice2 0 (Some (- 2)) 1 (Some (- 1)) m"
  let ?B = "slice2 2 None 1 (Some (- 1)) m"
  let ?C = "slice2 1 (Some (- 1)) 0 (Some (- 2)) m"
  let ?D = "slice2 1 (Some (- 1)) 2 None m"
  let ?E = "scale2 4 (view_inner m)"
  have ij: "i < r - 2" "j < c - 2" using i j by auto
  have st: "slice_bound r 1 = 1" "slice_bound r 2 = 2" "slice_bound c 1 = 1" "slice_bound c 2 = 2"
    using i j by (simp_all add: slice_bound_def)
  have sh: "shape_ok (r - 2) (c - 2) ?A" "shape_ok (r - 2) (c - 2) ?B"
    "shape_ok (r - 2) (c - 2) ?C" "shape_ok (r - 2) (c - 2) ?D" "shape_ok (r - 2) (c - 2) ?E"
    by (intro shape_slices shape_scale2 shape_view_inner m)+
  have vals: "?A ! i ! j = m ! i ! (j + 1)" "?B ! i ! j = m ! (i + 2) ! (j + 1)"
    "?C ! i ! j = m ! (i + 1) ! j" "?D ! i ! j = m ! (i + 1) ! (j + 2)"
    "?E ! i ! j = 4 * m ! (i + 1) ! (j + 1)"
    using nth_slices [OF m ij] nth_scale2 [OF shape_view_inner [OF m] ij, of 4]
      nth_view_inner [OF m i j]
    by (simp_all add: st slice_start(1) add.commute)
  have len: "\<And>a. shape_ok (r - 2) (c - 2) a \<Longrightarrow> i < length a \<and> j < length (a ! i)"
    using ij by (auto dest!: shape_okD)
  note shAB = shape_map2_map2 [OF sh(1) sh(2), of "(+)"]
  note shABC = shape_map2_map2 [OF shAB sh(3), of "(+)"]
  note shABCD = shape_map2_map2 [OF shABC sh(4), of "(+)"]
  show ?thesis
    unfolding laplacian_sum_def add2_def sub2_def
    using len [OF sh(1)] len [OF sh(2)] len [OF sh(3)] len [OF sh(4)] len [OF sh(5)]
      len [OF shAB] len [OF shABC] len [OF shABCD]
    by (simp only: nth_map2_map2 vals)
qed

lemma shape_add_inner: "shape_ok r c a \<Longrightarrow> shape_ok r c (add_inner a ch)"
  by (rule shape_okI) (auto simp: add_inner_def dest!: shape_okD)

lemma nth_add_inner:
  "shape_ok r c a \<Longrightarrow> i < r \<Longrightarrow> j < c \<Longrightarrow>
   add_inner a ch ! i ! j =
     (if 1 \<le> i \<and> i + 1 < r \<and> 1 \<le> j \<and> j + 1 < c
      then a ! i ! j + ch ! (i - 1) ! (j - 1) else a ! i ! j)"
  by (auto simp: add_inner_def in_slice_inner dest!: shape_okD)

lemma shape_add_where:
  "shape_ok r c m \<Longrightarrow> shape_ok r c a \<Longrightarrow> shape_ok r c b \<Longrightarrow> shape_ok r c (add_where m a b)"
  by (rule shape_okI) (auto simp: add_where_def dest!: shape_okD)

lemma nth_add_where:
  "shape_ok r c m \<Longrightarrow> shape_ok r c a \<Longrightarrow> shape_ok r c b \<Longrightarrow> i < r \<Longrightarrow> j < c \<Longrightarrow>
   add_where m a b ! i ! j = (if m ! i ! j then a ! i ! j + b ! i ! j else a ! i ! j)"
  by (auto simp: add_where_def dest!: shape_okD)

lemma window_span:
  "3 \<le> (n::nat) \<Longrightarrow> 1 \<le> (n - n div 2) div 2 \<and> (n - n div 2) div 2 + n div 2 + 1 \<le> n"
  by linarith

lemma slice_bound_nat: "k \<le> n \<Longrightarrow> slice_bound n (int k) = k"
  by (simp add: slice_bound_def)

lemma nth_set_col:
  "length vals = length m \<Longrightarrow> i < length m \<Longrightarrow> set_col j vals m ! i = (m ! i)[j := vals ! i]"
  by (simp add: set_col_def)

lemma length_set_col: "length vals = length m \<Longrightarrow> length (set_col j vals m) = length m"
  by (simp add: set_col_def)


lemma length_get_col: "length (get_col j m) = length m"
  by (simp add: get_col_def)

lemma nth_get_col: "i < length m \<Longrightarrow> get_col j m ! i = m ! i ! j"
  by (simp add: get_col_def)

lemma shape_set_col:
  "shape_ok r c m \<Longrightarrow> length vals = r \<Longrightarrow> shape_ok r c (set_col k vals m)"
  by (rule shape_okI) (auto simp: set_col_def dest!: shape_okD)

lemma nth2_set_col:
  "shape_ok r c m \<Longrightarrow> length vals = r \<Longrightarrow> i < r \<Longrightarrow> j < c \<Longrightarrow>
   set_col k vals m ! i ! j = (if j = k then vals ! i else m ! i ! j)"
  by (auto simp: set_col_def dest!: shape_okD)

lemma shape_set_row:
  "shape_ok r c m \<Longrightarrow> length vals = c \<Longrightarrow> shape_ok r c (set_row k vals m)"
  by (rule shape_okI; cases "k < length m") (auto simp: set_row_def nth_list_update dest!: shape_okD)

lemma nth2_set_row:
  "shape_ok r c m \<Longrightarrow> i < r \<Longrightarrow> j < c \<Longrightarrow>
   set_row k vals m ! i ! j = (if i = k then vals ! j else m ! i ! j)"
  by (cases "k < length m") (auto simp: set_row_def nth_list_update dest!: shape_okD)

lemma shape_set_col_rows:
  "shape_ok r c m \<Longrightarrow> shape_ok r c (set_col_rows lo hi k vals m)"
  by (rule shape_okI) (auto simp: set_col_rows_def dest!: shape_okD)

lemma nth2_set_col_rows:
  "shape_ok r c m \<Longrightarrow> i < r \<Longrightarrow> j < c \<Longrightarrow>
   set_col_rows lo hi k vals m ! i ! j =
     (if lo \<le> i \<and> i < hi \<and> j = k then vals ! (i - lo) else m ! i ! j)"
  by (auto simp: set_col_rows_def dest!: shape_okD)

lemma py_slice_nat:
  assumes "lo \<le> hi" "hi \<le> length xs"
  shows "length (py_slice (int lo) (Some (int hi)) xs) = hi - lo"
    and "k < hi - lo \<Longrightarrow> py_slice (int lo) (Some (int hi)) xs ! k = xs ! (lo + k)"
  using assms by (simp_all add: length_py_slice nth_py_slice slice_end_def slice_bound_nat)

section \<open>What the boundary pass computes\<close>

text \<open>
  On a grid with at least two rows and two columns the boundary pass returns normally,
  changes only the field and keeps its shape. On a grid with an interior every cell of
  the result has a closed form in the field the pass started from.
\<close>

lemma bc_stages:
  assumes sh: "shape_ok (ny s) (nx s) (u s)" and nx2: "2 \<le> nx s" and ny2: "2 \<le> ny s"
  shows "\<exists>u1 u2 u3 u4 u5 w.
    apply_boundary_conditions s = Inr (s\<lparr>u := w\<rparr>) \<and> shape_ok (ny s) (nx s) w \<and>
    (\<forall>i j. i < ny s \<and> j < nx s \<longrightarrow>
       u1 ! i ! j =
         (if j = 0 then robin (beta_wall s) (u_outdoor s) (u s ! i ! 1) else u s ! i ! j)) \<and>
    (\<forall>i j. i < ny s \<and> j < nx s \<longrightarrow>
       u2 ! i ! j =
         (if j = nx s - 1 then robin (beta_wall s) (u_outdoor s) (u1 ! i ! (nx s - 2))
          else u1 ! i ! j)) \<and>
    (\<forall>i j. i < ny s \<and> j < nx s \<longrightarrow>
       u3 ! i ! j =
         (if i = ny s - 1 then robin (beta_wall s) (u_outdoor s) (u2 ! (ny s - 2) ! j)
          else u2 ! i ! j)) \<and>
    (\<forall>i j. i < ny s \<and> j < nx s \<longrightarrow>
       u4 ! i ! j =
         (if i = 0 then robin (beta_wall s) (u_outdoor s) (u3 ! 1 ! j) else u3 ! i ! j)) \<and>
    (\<forall>i j. i < ny s \<and> j < nx s \<longrightarrow>
       u5 ! i ! j =
         (if window_left s \<and> (ny s - ny s div 2) div 2 \<le> i \<and>
             i < (ny s - ny s div 2) div 2 + ny s div 2 \<and> j = 0
          then robin (beta_window s) (u_outdoor s) (u4 ! i ! 1) else u4 ! i ! j)) \<and>
    (\<forall>i j. i < ny s \<and> j < nx s \<longrightarrow>
       w ! i ! j =
         (if window_right s \<and> (ny s - ny s div 2) div 2 \<le> i \<and>
             i < (ny s - ny s div 2) div 2 + ny s div 2 \<and> j = nx s - 1
          then robin (beta_window s) (u_outdoor s) (u5 ! i ! (nx s - 2)) else u5 ! i ! j))"
proof -
  define wall where "wall = robin (beta_wall s) (u_outdoor s)"
  define window where "window = robin (beta_window s) (u_outdoor s)"
  define ys where "ys = (ny s - ny s div 2) div 2"
  define ye where "ye = ys + ny s div 2"
  define u1 where "u1 = set_col 0 (map wall (get_col 1 (u s))) (u s)"
  define u2 where "u2 = set_col (nx s - 1) (map wall (get_col (nx s - 2) u1)) u1"
  define u3 where "u3 = set_row (ny s - 1) (map wall (u2 ! (ny s - 2))) u2"
  define u4 where "u4 = set_row 0 (map wall (u3 ! 1)) u3"
  define u5 where "u5 = (if window_left s
      then set_col_rows ys ye 0 (map window (get_col 1 (py_slice (int ys) (Some (int ye)) u4))) u4
      else u4)"
  define u6 where "u6 = (if window_right s
      then set_col_rows ys ye (nx s - 1)
             (map window (get_col (nx s - 2) (py_slice (int ys) (Some (int ye)) u5))) u5
      else u5)"
  have span: "ys \<le> ye" "ye \<le> ny s" "ys \<le> ny s"
    by (simp_all add: ys_def ye_def)
  have len: "length (u s) = ny s" and rows: "\<And>i. i < ny s \<Longrightarrow> length (u s ! i) = nx s"
    using sh by (auto dest: shape_okD)
  have sh1: "shape_ok (ny s) (nx s) u1"
    unfolding u1_def by (rule shape_set_col [OF sh]) (simp add: length_get_col len)
  have p1: "u1 ! i ! j = (if j = 0 then wall (u s ! i ! 1) else u s ! i ! j)"
    if "i < ny s" "j < nx s" for i j
    unfolding u1_def using that
    by (simp add: nth2_set_col [OF sh] length_get_col nth_get_col len)
  have len1: "length u1 = ny s" using sh1 by (auto dest: shape_okD)
  have sh2: "shape_ok (ny s) (nx s) u2"
    unfolding u2_def by (rule shape_set_col [OF sh1]) (simp add: length_get_col len1)
  have p2: "u2 ! i ! j = (if j = nx s - 1 then wall (u1 ! i ! (nx s - 2)) else u1 ! i ! j)"
    if "i < ny s" "j < nx s" for i j
    unfolding u2_def using that
    by (simp add: nth2_set_col [OF sh1] length_get_col nth_get_col len1)
  have len2: "length u2 = ny s" and rows2: "\<And>i. i < ny s \<Longrightarrow> length (u2 ! i) = nx s"
    using sh2 by (auto dest: shape_okD)
  have sh3: "shape_ok (ny s) (nx s) u3"
    unfolding u3_def using ny2 by (intro shape_set_row [OF sh2]) (simp add: rows2)
  have p3: "u3 ! i ! j = (if i = ny s - 1 then wall (u2 ! (ny s - 2) ! j) else u2 ! i ! j)"
    if "i < ny s" "j < nx s" for i j
    unfolding u3_def using that ny2
    by (simp add: nth2_set_row [OF sh2] rows2)
  have len3: "length u3 = ny s" and rows3: "\<And>i. i < ny s \<Longrightarrow> length (u3 ! i) = nx s"
    using sh3 by (auto dest: shape_okD)
  have sh4: "shape_ok (ny s) (nx s) u4"
    unfolding u4_def using ny2 by (intro shape_set_row [OF sh3]) (simp add: rows3)
  have p4: "u4 ! i ! j = (if i = 0 then wall (u3 ! 1 ! j) else u3 ! i ! j)"
    if "i < ny s" "j < nx s" for i j
    unfolding u4_def using that ny2
    by (simp add: nth2_set_row [OF sh3] rows3)
  have len4: "length u4 = ny s" using sh4 by (auto dest: shape_okD)
  have sh5: "shape_ok (ny s) (nx s) u5"
    unfolding u5_def by (simp add: shape_set_col_rows [OF sh4] sh4)
  have p5: "u5 ! i ! j =
      (if window_left s \<and> ys \<le> i \<and> i < ye \<and> j = 0 then window (u4 ! i ! 1) else u4 ! i ! j)"
    if "i < ny s" "j < nx s" for i j
    unfolding u5_def using that span py_slice_nat(1) [of ys ye u4] py_slice_nat(2) [of ys ye u4 "i - ys"]
    by (auto simp: nth2_set_col_rows [OF sh4] length_get_col nth_get_col len4)
  have len5: "length u5 = ny s" using sh5 by (auto dest: shape_okD)
  have sh6: "shape_ok (ny s) (nx s) u6"
    unfolding u6_def by (simp add: shape_set_col_rows [OF sh5] sh5)
  have p6: "u6 ! i ! j =
      (if window_right s \<and> ys \<le> i \<and> i < ye \<and> j = nx s - 1
       then window (u5 ! i ! (nx s - 2)) else u5 ! i ! j)"
    if "i < ny s" "j < nx s" for i j
    unfolding u6_def using that span py_slice_nat(1) [of ys ye u5] py_slice_nat(2) [of ys ye u5 "i - ys"]
    by (auto simp: nth2_set_col_rows [OF sh5] length_get_col nth_get_col len5)
  have lo: "slice_bound (ny s) (int ys) = ys" "slice_bound (ny s) (int ye) = ye"
    using span by (simp_all add: slice_bound_nat)
  have big: "\<not> (nx s < 2 \<or> ny s < 2)"
    using nx2 ny2 by simp
  have res: "apply_boundary_conditions s = Inr (s\<lparr>u := u6\<rparr>)"
    unfolding apply_boundary_conditions_def if_not_P [OF big]
    apply (subst Let_def, fold wall_def)
    apply (subst Let_def, fold window_def)
    apply (subst Let_def, fold u1_def)
    apply (subst Let_def, fold u2_def)
    apply (subst Let_def, fold u3_def)
    apply (subst Let_def, fold u4_def)
    apply (subst Let_def)
    apply (subst Let_def, fold ys_def)
    apply (subst Let_def, fold ye_def)
    apply (subst Let_def, subst Let_def, unfold lo)
    apply (subst Let_def, fold u5_def)
    apply (subst Let_def, fold u6_def)
    by (rule refl)
  show ?thesis
  proof (rule exI [of _ u1], rule exI [of _ u2], rule exI [of _ u3], rule exI [of _ u4],
      rule exI [of _ u5], rule exI [of _ u6], intro conjI allI impI)
    show "apply_boundary_conditions s = Inr (s\<lparr>u := u6\<rparr>)" by (rule res)
    show "shape_ok (ny s) (nx s) u6" by (rule sh6)
  next
    fix i j assume "i < ny s \<and> j < nx s"
    then show "u1 ! i ! j =
         (if j = 0 then robin (beta_wall s) (u_outdoor s) (u s ! i ! 1) else u s ! i ! j)"
      using p1 [of i j] by (simp add: wall_def)
  next
    fix i j assume "i < ny s \<and> j < nx s"
    then show "u2 ! i ! j =
         (if j = nx s - 1 then robin (beta_wall s) (u_outdoor s) (u1 ! i ! (nx s - 2))
          else u1 ! i ! j)"
      using p2 [of i j] by (simp add: wall_def)
  next
    fix i j assume "i < ny s \<and> j < nx s"
    then show "u3 ! i ! j =
         (if i = ny s - 1 then robin (beta_wall s) (u_outdoor s) (u2 ! (ny s - 2) ! j)
          else u2 ! i ! j)"
      using p3 [of i j] by (simp add: wall_def)
  next
    fix i j assume "i < ny s \<and> j < nx s"
    then show "u4 ! i ! j =
         (if i = 0 then robin (beta_wall s) (u_outdoor s) (u3 ! 1 ! j) else u3 ! i ! j)"
      using p4 [of i j] by (simp add: wall_def)
  next
    fix i j assume "i < ny s \<and> j < nx s"
    then show "u5 ! i ! j =
         (if window_left s \<and> (ny s - ny s div 2) div 2 \<le> i \<and>
             i < (ny s - ny s div 2) div 2 + ny s div 2 \<and> j = 0
          then robin (beta_window s) (u_outdoor s) (u4 ! i ! 1) else u4 ! i ! j)"
      using p5 [of i j] by (simp add: window_def ys_def ye_def)
  next
    fix i j assume "i < ny s \<and> j < nx s"
    then show "u6 ! i ! j =
         (if window_right s \<and> (ny s - ny s div 2) div 2 \<le> i \<and>
             i < (ny s - ny s div 2) div 2 + ny s div 2 \<and> j = nx s - 1
          then robin (beta_window s) (u_outdoor s) (u5 ! i ! (nx s - 2)) else u5 ! i ! j)"
      using p6 [of i j] by (simp add: window_def ys_def ye_def)
  qed
qed

lemma bc_result:
  assumes sh: "shape_ok (ny s) (nx s) (u s)" and nx2: "2 \<le> nx s" and ny2: "2 \<le> ny s"
  shows "\<exists>w. apply_boundary_conditions s = Inr (s\<lparr>u := w\<rparr>) \<and> shape_ok (ny s) (nx s) w \<and>
    (3 \<le> nx s \<and> 3 \<le> ny s \<longrightarrow>
     (\<forall>i j. 1 \<le> i \<and> i + 1 < ny s \<and> 1 \<le> j \<and> j + 1 < nx s \<longrightarrow> w ! i ! j = u s ! i ! j) \<and>
     (\<forall>i. 1 \<le> i \<and> i + 1 < ny s \<longrightarrow>
        w ! i ! 0 =
          robin (if window_left s \<and> (ny s - ny s div 2) div 2 \<le> i \<and>
                    i < (ny s - ny s div 2) div 2 + ny s div 2
                 then beta_window s else beta_wall s) (u_outdoor s) (u s ! i ! 1) \<and>
        w ! i ! (nx s - 1) =
          robin (if window_right s \<and> (ny s - ny s div 2) div 2 \<le> i \<and>
                    i < (ny s - ny s div 2) div 2 + ny s div 2
                 then beta_window s else beta_wall s) (u_outdoor s) (u s ! i ! (nx s - 2))) \<and>
     (\<forall>j. 1 \<le> j \<and> j + 1 < nx s \<longrightarrow>
        w ! (ny s - 1) ! j = robin (beta_wall s) (u_outdoor s) (u s ! (ny s - 2) ! j) \<and>
        w ! 0 ! j = robin (beta_wall s) (u_outdoor s) (u s ! 1 ! j)) \<and>
     w ! 0 ! 0 = robin (beta_wall s) (u_outdoor s) (robin (beta_wall s) (u_outdoor s) (u s ! 1 ! 1)) \<and>
     w ! 0 ! (nx s - 1) =
       robin (beta_wall s) (u_outdoor s) (robin (beta_wall s) (u_outdoor s) (u s ! 1 ! (nx s - 2))) \<and>
     w ! (ny s - 1) ! 0 =
       robin (beta_wall s) (u_outdoor s) (robin (beta_wall s) (u_outdoor s) (u s ! (ny s - 2) ! 1)) \<and>
     w ! (ny s - 1) ! (nx s - 1) =
       robin (beta_wall s) (u_outdoor s)
         (robin (beta_wall s) (u_outdoor s) (u s ! (ny s - 2) ! (nx s - 2))))"
proof -
  define wall where "wall = robin (beta_wall s) (u_outdoor s)"
  define window where "window = robin (beta_window s) (u_outdoor s)"
  define ys where "ys = (ny s - ny s div 2) div 2"
  define ye where "ye = ys + ny s div 2"
  from bc_stages [OF sh nx2 ny2] obtain u1 u2 u3 u4 u5 u6
    where res: "apply_boundary_conditions s = Inr (s\<lparr>u := u6\<rparr>)"
      and sh6: "shape_ok (ny s) (nx s) u6"
      and q1: "\<forall>i j. i < ny s \<and> j < nx s \<longrightarrow>
         u1 ! i ! j =
           (if j = 0 then robin (beta_wall s) (u_outdoor s) (u s ! i ! 1) else u s ! i ! j)"
      and q2: "\<forall>i j. i < ny s \<and> j < nx s \<longrightarrow>
         u2 ! i ! j =
           (if j = nx s - 1 then robin (beta_wall s) (u_outdoor s) (u1 ! i ! (nx s - 2))
            else u1 ! i ! j)"
      and q3: "\<forall>i j. i < ny s \<and> j < nx s \<longrightarrow>
         u3 ! i ! j =
           (if i = ny s - 1 then robin (beta_wall s) (u_outdoor s) (u2 ! (ny s - 2) ! j)
            else u2 ! i ! j)"
      and q4: "\<forall>i j. i < ny s \<and> j < nx s \<longrightarrow>
         u4 ! i ! j =
           (if i = 0 then robin (beta_wall s) (u_outdoor s) (u3 ! 1 ! j) else u3 ! i ! j)"
      and q5: "\<forall>i j. i < ny s \<and> j < nx s \<longrightarrow>
         u5 ! i ! j =
           (if window_left s \<and> (ny s - ny s div 2) div 2 \<le> i \<and>
               i < (ny s - ny s div 2) div 2 + ny s div 2 \<and> j = 0
            then robin (beta_window s) (u_outdoor s) (u4 ! i ! 1) else u4 ! i ! j)"
      and q6: "\<forall>i j. i < ny s \<and> j < nx s \<longrightarrow>
         u6 ! i ! j =
           (if window_right s \<and> (ny s - ny s div 2) div 2 \<le> i \<and>
               i < (ny s - ny s div 2) div 2 + ny s div 2 \<and> j = nx s - 1
            then robin (beta_window s) (u_outdoor s) (u5 ! i ! (nx s - 2)) else u5 ! i ! j)"
    by blast
  have p1: "u1 ! i ! j = (if j = 0 then wall (u s ! i ! 1) else u s ! i ! j)"
    if "i < ny s" "j < nx s" for i j
    using q1 that by (simp add: wall_def window_def ys_def ye_def)
  have p2: "u2 ! i ! j = (if j = nx s - 1 then wall (u1 ! i ! (nx s - 2)) else u1 ! i ! j)"
    if "i < ny s" "j < nx s" for i j
    using q2 that by (simp add: wall_def window_def ys_def ye_def)
  have p3: "u3 ! i ! j = (if i = ny s - 1 then wall (u2 ! (ny s - 2) ! j) else u2 ! i ! j)"
    if "i < ny s" "j < nx s" for i j
    using q3 that by (simp add: wall_def window_def ys_def ye_def)
  have p4: "u4 ! i ! j = (if i = 0 then wall (u3 ! 1 ! j) else u3 ! i ! j)"
    if "i < ny s" "j < nx s" for i j
    using q4 that by (simp add: wall_def window_def ys_def ye_def)
  have p5: "u5 ! i ! j =
      (if window_left s \<and> ys \<le> i \<and> i < ye \<and> j = 0 then window (u4 ! i ! 1) else u4 ! i ! j)"
    if "i < ny s" "j < nx s" for i j
    using q5 that by (simp add: wall_def window_def ys_def ye_def)
  have p6: "u6 ! i ! j =
      (if window_right s \<and> ys \<le> i \<and> i < ye \<and> j = nx s - 1
       then window (u5 ! i ! (nx s - 2)) else u5 ! i ! j)"
    if "i < ny s" "j < nx s" for i j
    using q6 that by (simp add: wall_def window_def ys_def ye_def)
  have pointwise:
     "(\<forall>i j. 1 \<le> i \<and> i + 1 < ny s \<and> 1 \<le> j \<and> j + 1 < nx s \<longrightarrow> u6 ! i ! j = u s ! i ! j) \<and>
     (\<forall>i. 1 \<le> i \<and> i + 1 < ny s \<longrightarrow>
        u6 ! i ! 0 =
          robin (if window_left s \<and> (ny s - ny s div 2) div 2 \<le> i \<and>
                    i < (ny s - ny s div 2) div 2 + ny s div 2
                 then beta_window s else beta_wall s) (u_outdoor s) (u s ! i ! 1) \<and>
        u6 ! i ! (nx s - 1) =
          robin (if window_right s \<and> (ny s - ny s div 2) div 2 \<le> i \<and>
                    i < (ny s - ny s div 2) div 2 + ny s div 2
                 then beta_window s else beta_wall s) (u_outdoor s) (u s ! i ! (nx s - 2))) \<and>
     (\<forall>j. 1 \<le> j \<and> j + 1 < nx s \<longrightarrow>
        u6 ! (ny s - 1) ! j = robin (beta_wall s) (u_outdoor s) (u s ! (ny s - 2) ! j) \<and>
        u6 ! 0 ! j = robin (beta_wall s) (u_outdoor s) (u s ! 1 ! j)) \<and>
     u6 ! 0 ! 0 = robin (beta_wall s) (u_outdoor s) (robin (beta_wall s) (u_outdoor s) (u s ! 1 ! 1)) \<and>
     u6 ! 0 ! (nx s - 1) =
       robin (beta_wall s) (u_outdoor s) (robin (beta_wall s) (u_outdoor s) (u s ! 1 ! (nx s - 2))) \<and>
     u6 ! (ny s - 1) ! 0 =
       robin (beta_wall s) (u_outdoor s) (robin (beta_wall s) (u_outdoor s) (u s ! (ny s - 2) ! 1)) \<and>
     u6 ! (ny s - 1) ! (nx s - 1) =
       robin (beta_wall s) (u_outdoor s)
         (robin (beta_wall s) (u_outdoor s) (u s ! (ny s - 2) ! (nx s - 2)))"
    if nx3: "3 \<le> nx s" and ny3: "3 \<le> ny s"
  proof -
    have span3: "1 \<le> ys" "ye + 1 \<le> ny s"
      using window_span [OF ny3] by (simp_all add: ys_def ye_def)
    have ne: "nx s - 1 \<noteq> 0" "nx s - 2 \<noteq> 0" "nx s - 2 \<noteq> nx s - 1" "1 \<noteq> nx s - 1"
      "ny s - 1 \<noteq> 0" "ny s - 2 \<noteq> 0" "ny s - 2 \<noteq> ny s - 1" "1 \<noteq> ny s - 1"
      "nx s - 1 < nx s" "nx s - 2 < nx s" "1 < nx s" "0 < nx s"
      "ny s - 1 < ny s" "ny s - 2 < ny s" "1 < ny s" "0 < ny s"
      "\<not> ys \<le> 0" "\<not> ny s - 1 < ye"
      using nx3 ny3 span3 by simp_all
    have interior: "u6 ! i ! j = u s ! i ! j"
      if "1 \<le> i" "i + 1 < ny s" "1 \<le> j" "j + 1 < nx s" for i j
    proof -
      have "i < ny s" "j < nx s" "i \<noteq> 0" "j \<noteq> 0" "i \<noteq> ny s - 1" "j \<noteq> nx s - 1"
        using that by simp_all
      then show ?thesis by (simp add: p6 p5 p4 p3 p2 p1)
    qed
    have left: "u6 ! i ! 0 =
        (if window_left s \<and> ys \<le> i \<and> i < ye then window (u s ! i ! 1) else wall (u s ! i ! 1))"
      if "1 \<le> i" "i + 1 < ny s" for i
    proof -
      have "i < ny s" "i \<noteq> 0" "i \<noteq> ny s - 1"
        using that by simp_all
      then show ?thesis using ne by (simp add: p6 p5 p4 p3 p2 p1)
    qed
    have right: "u6 ! i ! (nx s - 1) =
        (if window_right s \<and> ys \<le> i \<and> i < ye then window (u s ! i ! (nx s - 2))
         else wall (u s ! i ! (nx s - 2)))"
      if "1 \<le> i" "i + 1 < ny s" for i
    proof -
      have "i < ny s" "i \<noteq> 0" "i \<noteq> ny s - 1"
        using that by simp_all
      then show ?thesis using ne by (simp add: p6 p5 p4 p3 p2 p1)
    qed
    have bottom: "u6 ! (ny s - 1) ! j = wall (u s ! (ny s - 2) ! j)"
      if "1 \<le> j" "j + 1 < nx s" for j
    proof -
      have "j < nx s" "j \<noteq> 0" "j \<noteq> nx s - 1"
        using that by simp_all
      then show ?thesis using ne by (simp add: p6 p5 p4 p3 p2 p1)
    qed
    have top: "u6 ! 0 ! j = wall (u s ! 1 ! j)"
      if "1 \<le> j" "j + 1 < nx s" for j
    proof -
      have "j < nx s" "j \<noteq> 0" "j \<noteq> nx s - 1"
        using that by simp_all
      then show ?thesis using ne by (simp add: p6 p5 p4 p3 p2 p1)
    qed
    have c00: "u6 ! 0 ! 0 = wall (wall (u s ! 1 ! 1))"
      using ne by (simp add: p6 p5 p4 p3 p2 p1)
    have c01: "u6 ! 0 ! (nx s - 1) = wall (wall (u s ! 1 ! (nx s - 2)))"
      using ne by (simp add: p6 p5 p4 p3 p2 p1)
    have c10: "u6 ! (ny s - 1) ! 0 = wall (wall (u s ! (ny s - 2) ! 1))"
      using ne by (simp add: p6 p5 p4 p3 p2 p1)
    have c11: "u6 ! (ny s - 1) ! (nx s - 1) = wall (wall (u s ! (ny s - 2) ! (nx s - 2)))"
      using ne by (simp add: p6 p5 p4 p3 p2 p1)
    show ?thesis
    proof (intro conjI allI impI)
      fix i j assume "1 \<le> i \<and> i + 1 < ny s \<and> 1 \<le> j \<and> j + 1 < nx s"
      then show "u6 ! i ! j = u s ! i ! j" by (simp add: interior)
    next
      fix i assume "1 \<le> i \<and> i + 1 < ny s"
      then show "u6 ! i ! 0 =
            robin (if window_left s \<and> (ny s - ny s div 2) div 2 \<le> i \<and>
                      i < (ny s - ny s div 2) div 2 + ny s div 2
                   then beta_window s else beta_wall s) (u_outdoor s) (u s ! i ! 1)"
        using left [of i] by (simp add: wall_def window_def ys_def ye_def)
    next
      fix i assume "1 \<le> i \<and> i + 1 < ny s"
      then show "u6 ! i ! (nx s - 1) =
            robin (if window_right s \<and> (ny s - ny s div 2) div 2 \<le> i \<and>
                      i < (ny s - ny s div 2) div 2 + ny s div 2
                   then beta_window s else beta_wall s) (u_outdoor s) (u s ! i ! (nx s - 2))"
        using right [of i] by (simp add: wall_def window_def ys_def ye_def)
    next
      fix j assume "1 \<le> j \<and> j + 1 < nx s"
      then show "u6 ! (ny s - 1) ! j = robin (beta_wall s) (u_outdoor s) (u s ! (ny s - 2) ! j)"
        using bottom [of j] by (simp add: wall_def)
    next
      fix j assume "1 \<le> j \<and> j + 1 < nx s"
      then show "u6 ! 0 ! j = robin (beta_wall s) (u_outdoor s) (u s ! 1 ! j)"
        using top [of j] by (simp add: wall_def)
    qed (use c00 c01 c10 c11 in \<open>simp_all add: wall_def\<close>)
  qed
  show ?thesis
    using res sh6 pointwise by blast
qed

section \<open>What the interior update computes\<close>

lemma wf_shapes:
  assumes "wf s"
  shows "shape_ok (ny s) (nx s) (u s)" "shape_ok (ny s) (nx s) (radiator_mask s)"
    "shape_ok (ny s) (nx s) (sensor_mask s)" "dx s \<noteq> 0"
  using assms by (simp_all add: wf_def)

lemma wf_mask_inner:
  assumes "wf s" "0 < active_cells_count s"
  shows "mask_inner s = Some (view_inner (radiator_mask s))"
  using assms by (auto simp: wf_def split: option.splits)

lemma update_interior_heating:
  assumes wf: "wf s" and on: "below (sense s) (thermostat_setting s)" "0 < active_cells_count s"
  shows "update_interior s =
     Inr (s\<lparr>total_energy := total_energy s + P s * dt s,
            u := add_inner (u s)
                   (add_where (view_inner (radiator_mask s))
                      (scale2 ((alpha s * dt s) / (dx s)\<^sup>2) (laplacian_sum (u s)))
                      (scale2 (heating_factor_per_step s) (view_inner (u s))))\<rparr>)"
  using on wf_mask_inner [OF wf on(2)] wf_shapes(4) [OF wf]
  by (simp add: update_interior_def Let_def)

lemma update_interior_idle:
  assumes wf: "wf s" and off: "\<not> (below (sense s) (thermostat_setting s) \<and> 0 < active_cells_count s)"
  shows "update_interior s =
     Inr (s\<lparr>u := add_inner (u s)
                   (scale2 ((alpha s * dt s) / (dx s)\<^sup>2) (laplacian_sum (u s)))\<rparr>)"
  using off wf_shapes(4) [OF wf]
  by (auto simp: update_interior_def Let_def)

lemma nth_change:
  assumes sh: "shape_ok r c a" and i: "1 \<le> i" "i + 1 < r" and j: "1 \<le> j" "j + 1 < c"
  shows "scale2 k (laplacian_sum a) ! (i - 1) ! (j - 1) =
     k * (a ! (i - 1) ! j + a ! (i + 1) ! j + a ! i ! (j - 1) + a ! i ! (j + 1) - 4 * a ! i ! j)"
proof -
  have ij: "i - 1 + 2 < r" "j - 1 + 2 < c" "i - 1 < r - 2" "j - 1 < c - 2"
    using i j by simp_all
  have eqs: "i - 1 + 1 = i" "j - 1 + 1 = j" "i - 1 + 2 = i + 1" "j - 1 + 2 = j + 1"
    using i j by simp_all
  show ?thesis
    using nth_scale2 [OF shape_laplacian_sum [OF sh] ij(3,4), of k]
      nth_laplacian_sum [OF sh ij(1,2)]
    by (simp only: eqs)
qed

lemma update_interior_result:
  assumes wf: "wf s"
  shows "\<exists>s1. update_interior s = Inr s1 \<and>
     s1 = s\<lparr>total_energy := total_energy s1, u := u s1\<rparr> \<and>
     total_energy s1 = total_energy s +
        (if below (sense s) (thermostat_setting s) \<and> 0 < active_cells_count s
         then P s * dt s else 0) \<and>
     shape_ok (ny s) (nx s) (u s1) \<and>
     (\<forall>i j. i < ny s \<and> j < nx s \<longrightarrow>
        u s1 ! i ! j =
          (if 1 \<le> i \<and> i + 1 < ny s \<and> 1 \<le> j \<and> j + 1 < nx s
           then u s ! i ! j
                + (alpha s * dt s) / (dx s)\<^sup>2 *
                  (u s ! (i - 1) ! j + u s ! (i + 1) ! j + u s ! i ! (j - 1) + u s ! i ! (j + 1)
                   - 4 * u s ! i ! j)
                + (if below (sense s) (thermostat_setting s) \<and> 0 < active_cells_count s \<and>
                      radiator_mask s ! i ! j
                   then heating_factor_per_step s * u s ! i ! j else 0)
           else u s ! i ! j))"
proof -
  note sh = wf_shapes [OF wf]
  let ?ch = "scale2 ((alpha s * dt s) / (dx s)\<^sup>2) (laplacian_sum (u s))"
  have sh_ch: "shape_ok (ny s - 2) (nx s - 2) ?ch"
    by (intro shape_scale2 shape_laplacian_sum sh)
  show ?thesis
  proof (cases "below (sense s) (thermostat_setting s) \<and> 0 < active_cells_count s")
    case True
    let ?mi = "view_inner (radiator_mask s)"
    let ?ht = "scale2 (heating_factor_per_step s) (view_inner (u s))"
    let ?v = "add_inner (u s) (add_where ?mi ?ch ?ht)"
    have sh_mi: "shape_ok (ny s - 2) (nx s - 2) ?mi" and sh_ht: "shape_ok (ny s - 2) (nx s - 2) ?ht"
      by (intro shape_scale2 shape_view_inner sh)+
    have cell: "?v ! i ! j =
        u s ! i ! j
        + (alpha s * dt s) / (dx s)\<^sup>2 *
          (u s ! (i - 1) ! j + u s ! (i + 1) ! j + u s ! i ! (j - 1) + u s ! i ! (j + 1)
           - 4 * u s ! i ! j)
        + (if radiator_mask s ! i ! j then heating_factor_per_step s * u s ! i ! j else 0)"
      if i: "1 \<le> i" "i + 1 < ny s" and j: "1 \<le> j" "j + 1 < nx s" for i j
    proof -
      have ij: "i - 1 < ny s - 2" "j - 1 < nx s - 2" "i - 1 + 2 < ny s" "j - 1 + 2 < nx s"
        "i < ny s" "j < nx s" "i - 1 + 1 = i" "j - 1 + 1 = j"
        using i j by simp_all
      have m: "?mi ! (i - 1) ! (j - 1) = radiator_mask s ! i ! j"
        using nth_view_inner [OF sh(2) ij(3,4)] by (simp only: ij)
      have h: "?ht ! (i - 1) ! (j - 1) = heating_factor_per_step s * u s ! i ! j"
        using nth_scale2 [OF shape_view_inner [OF sh(1)] ij(1,2)] nth_view_inner [OF sh(1) ij(3,4)]
        by (simp only: ij)
      have aw: "add_where ?mi ?ch ?ht ! (i - 1) ! (j - 1) =
          (if radiator_mask s ! i ! j
           then ?ch ! (i - 1) ! (j - 1) + heating_factor_per_step s * u s ! i ! j
           else ?ch ! (i - 1) ! (j - 1))"
        unfolding nth_add_where [OF sh_mi sh_ch sh_ht ij(1,2)] m h by (rule refl)
      have ai: "?v ! i ! j = u s ! i ! j + add_where ?mi ?ch ?ht ! (i - 1) ! (j - 1)"
        unfolding nth_add_inner [OF sh(1) ij(5,6)] using i j by simp
      show ?thesis
        unfolding ai aw nth_change [OF sh(1) i j] by simp
    qed
    have outer: "?v ! i ! j = u s ! i ! j"
      if "i < ny s" "j < nx s" "\<not> (1 \<le> i \<and> i + 1 < ny s \<and> 1 \<le> j \<and> j + 1 < nx s)" for i j
      by (simp only: nth_add_inner [OF sh(1) that(1,2)] if_not_P [OF that(3)])
    show ?thesis
      using True update_interior_heating [OF wf] shape_add_inner [OF sh(1)] cell outer
      by auto
  next
    case False
    let ?v = "add_inner (u s) ?ch"
    have cell: "?v ! i ! j =
        u s ! i ! j
        + (alpha s * dt s) / (dx s)\<^sup>2 *
          (u s ! (i - 1) ! j + u s ! (i + 1) ! j + u s ! i ! (j - 1) + u s ! i ! (j + 1)
           - 4 * u s ! i ! j)"
      if i: "1 \<le> i" "i + 1 < ny s" and j: "1 \<le> j" "j + 1 < nx s" for i j
    proof -
      have ij: "i < ny s" "j < nx s" using i j by simp_all
      have ai: "?v ! i ! j = u s ! i ! j + ?ch ! (i - 1) ! (j - 1)"
        unfolding nth_add_inner [OF sh(1) ij] using i j by simp
      show ?thesis
        unfolding ai nth_change [OF sh(1) i j] by simp
    qed
    have outer: "?v ! i ! j = u s ! i ! j"
      if "i < ny s" "j < nx s" "\<not> (1 \<le> i \<and> i + 1 < ny s \<and> 1 \<le> j \<and> j + 1 < nx s)" for i j
      by (simp only: nth_add_inner [OF sh(1) that(1,2)] if_not_P [OF that(3)])
    show ?thesis
      using False update_interior_idle [OF wf False] shape_add_inner [OF sh(1)] cell outer
      by auto
  qed
qed

section \<open>Well-formedness is kept by every method\<close>

lemma nth_assign_rect:
  "shape_ok r c m \<Longrightarrow> i < r \<Longrightarrow> j < c \<Longrightarrow>
   assign_rect a b e d v m ! i ! j = (if in_slice r a b i \<and> in_slice c e d j then v else m ! i ! j)"
  by (auto simp: assign_rect_def dest!: shape_okD)

lemma shape_assign_rect: "shape_ok r c m \<Longrightarrow> shape_ok r c (assign_rect a b e d v m)"
  by (rule shape_okI) (auto simp: assign_rect_def dest!: shape_okD)

lemma shape_assign_all: "shape_ok r c m \<Longrightarrow> shape_ok r c (assign_all v m)"
  by (rule shape_okI) (auto simp: assign_all_def dest!: shape_okD)

lemma nth_assign_all: "shape_ok r c m \<Longrightarrow> i < r \<Longrightarrow> j < c \<Longrightarrow> assign_all v m ! i ! j = v"
  by (auto simp: assign_all_def dest!: shape_okD)

lemma shape_full: "shape_ok r c (full r c v)"
  by (rule shape_okI) (simp_all add: full_def)

lemma nth_full: "i < r \<Longrightarrow> j < c \<Longrightarrow> full r c v ! i ! j = v"
  by (simp add: full_def)

lemma count_true_all_False: "count_true (map (map (\<lambda>_. False)) m) = 0"
  by (induction m) (simp_all add: count_true_def)

lemma count_true_inner_cleared: "count_true (view_inner (assign_all False m)) = 0"
proof -
  have "\<forall>row \<in> set (view_inner (assign_all False m)). \<forall>b \<in> set row. \<not> b"
    by (auto simp: view_inner_def slice2_def py_slice_def assign_all_def
          dest!: in_set_takeD in_set_dropD)
  then show ?thesis
    by (simp add: count_true_def filter_empty_conv)
qed

lemma init_wf: "init c = Inr s \<Longrightarrow> wf s"
  by (auto simp: init_def Let_def wf_def shape_full split: if_splits)

lemma set_windows_wf: "wf s \<Longrightarrow> wf (set_windows left right s)"
  by (auto simp: wf_def set_windows_def split: option.splits)

lemma clear_radiators_wf: "wf s \<Longrightarrow> wf (clear_radiators s)"
  by (auto simp: wf_def clear_radiators_def Let_def shape_assign_all count_true_inner_cleared
        split: option.splits)

lemma add_radiator_wf: "wf s \<Longrightarrow> add_radiator x_start y_start width height s = Inr s' \<Longrightarrow> wf s'"
  by (auto simp: wf_def add_radiator_def Let_def shape_assign_rect split: if_splits)

lemma set_sensor_region_wf: "wf s \<Longrightarrow> set_sensor_region x_start x_end s = Inr s' \<Longrightarrow> wf s'"
  by (auto simp: wf_def set_sensor_region_def Let_def shape_assign_rect shape_assign_all
        split: if_splits option.splits)


lemma bc_frame:
  assumes "apply_boundary_conditions s = Inr s'"
  shows "s' = s\<lparr>u := u s'\<rparr>" and "2 \<le> nx s" and "2 \<le> ny s"
proof -
  have big: "\<not> (nx s < 2 \<or> ny s < 2)"
    using assms by (auto simp: apply_boundary_conditions_def)
  then show "2 \<le> nx s" "2 \<le> ny s" by simp_all
  have "\<exists>w. apply_boundary_conditions s = Inr (s\<lparr>u := w\<rparr>)"
    unfolding apply_boundary_conditions_def if_not_P [OF big] Let_def by blast
  with assms show "s' = s\<lparr>u := u s'\<rparr>" by auto
qed

lemma bc_small: "nx s < 2 \<or> ny s < 2 \<Longrightarrow> apply_boundary_conditions s = Inl IndexError"
  by (simp add: apply_boundary_conditions_def)

lemma update_interior_fields:
  assumes "wf s" "update_interior s = Inr s1"
  shows "s1 = s\<lparr>total_energy := total_energy s1, u := u s1\<rparr>"
    and "shape_ok (ny s) (nx s) (u s1)"
  using update_interior_result [OF assms(1)] assms(2) by auto

lemma update_interior_total: "wf s \<Longrightarrow> \<exists>s1. update_interior s = Inr s1"
  using update_interior_result by blast

lemma update_interior_wf:
  assumes "wf s" "update_interior s = Inr s1"
  shows "wf s1"
proof -
  note f = update_interior_fields [OF assms]
  show ?thesis
    using assms(1) f(2) by (subst f(1)) (auto simp: wf_def split: option.splits)
qed

lemma bc_wf:
  assumes "wf s" "apply_boundary_conditions s = Inr s'"
  shows "wf s'"
proof -
  note f = bc_frame [OF assms(2)]
  obtain w where w: "apply_boundary_conditions s = Inr (s\<lparr>u := w\<rparr>)" "shape_ok (ny s) (nx s) w"
    using bc_result [OF wf_shapes(1) [OF assms(1)] f(2,3)] by blast
  with assms(2) have "s' = s\<lparr>u := w\<rparr>" by simp
  with assms(1) w(2) show ?thesis by (auto simp: wf_def split: option.splits)
qed

lemma step_wf: "wf s \<Longrightarrow> step s = Inr s' \<Longrightarrow> wf s'"
  by (auto simp: step_def split: sum.splits dest: update_interior_wf bc_wf)

lemma step_total:
  assumes "wf s" "2 \<le> nx s" "2 \<le> ny s"
  shows "\<exists>s'. step s = Inr s'"
proof -
  obtain s1 where s1: "update_interior s = Inr s1"
    using update_interior_total [OF assms(1)] by blast
  note f = update_interior_fields [OF assms(1) s1]
  have d: "nx s1 = nx s" "ny s1 = ny s" by (subst f(1), simp)+
  have "\<exists>w. apply_boundary_conditions s1 = Inr (s1\<lparr>u := w\<rparr>)"
    using bc_result [of s1] f(2) assms(2,3) d by auto
  then show ?thesis using s1 by (auto simp: step_def)
qed

lemma step_small:
  assumes "wf s" "nx s < 2 \<or> ny s < 2"
  shows "step s = Inl IndexError"
proof -
  obtain s1 where s1: "update_interior s = Inr s1"
    using update_interior_total [OF assms(1)] by blast
  note f = update_interior_fields [OF assms(1) s1]
  have d: "nx s1 = nx s" "ny s1 = ny s" by (subst f(1), simp)+
  show ?thesis using s1 bc_small [of s1] assms(2) d by (simp add: step_def)
qed

lemma step_frame:
  assumes "wf s" "step s = Inr s'"
  shows "s' = s\<lparr>total_energy := total_energy s', u := u s'\<rparr>"
    and "total_energy s' = total_energy s +
        (if below (sense s) (thermostat_setting s) \<and> 0 < active_cells_count s
         then P s * dt s else 0)"
proof -
  obtain s1 where s1: "update_interior s = Inr s1" and bc: "apply_boundary_conditions s1 = Inr s'"
    using assms(2) by (auto simp: step_def split: sum.splits)
  note f = update_interior_fields [OF assms(1) s1] and g = bc_frame(1) [OF bc]
  have e: "total_energy s' = total_energy s1" by (subst g, simp)
  show "s' = s\<lparr>total_energy := total_energy s', u := u s'\<rparr>"
    by (subst g, subst f(1), simp add: e)
  show "total_energy s' = total_energy s +
        (if below (sense s) (thermostat_setting s) \<and> 0 < active_cells_count s
         then P s * dt s else 0)"
    using update_interior_result [OF assms(1)] s1 e by auto
qed

section \<open>What a step computes\<close>

lemma step_split:
  assumes wf: "wf s" and st: "step s = Inr s'"
  obtains s1 where "update_interior s = Inr s1" "apply_boundary_conditions s1 = Inr s'"
    "wf s1" "nx s1 = nx s" "ny s1 = ny s" "beta_wall s1 = beta_wall s"
    "beta_window s1 = beta_window s" "u_outdoor s1 = u_outdoor s"
    "window_left s1 = window_left s" "window_right s1 = window_right s"
proof -
  obtain s1 where s1: "update_interior s = Inr s1" and bc: "apply_boundary_conditions s1 = Inr s'"
    using st by (auto simp: step_def split: sum.splits)
  note f = update_interior_fields [OF wf s1]
  have "nx s1 = nx s" "ny s1 = ny s" "beta_wall s1 = beta_wall s"
    "beta_window s1 = beta_window s" "u_outdoor s1 = u_outdoor s"
    "window_left s1 = window_left s" "window_right s1 = window_right s"
    by (subst f(1), simp)+
  then show ?thesis
    using that s1 bc update_interior_wf [OF wf s1] by blast
qed

lemma step_interior:
  assumes wf: "wf s" and st: "step s = Inr s'"
    and ij: "1 \<le> i" "i + 1 < ny s" "1 \<le> j" "j + 1 < nx s"
  shows "u s' ! i ! j =
     u s ! i ! j
     + (alpha s * dt s) / (dx s)\<^sup>2 *
       (u s ! (i - 1) ! j + u s ! (i + 1) ! j + u s ! i ! (j - 1) + u s ! i ! (j + 1)
        - 4 * u s ! i ! j)
     + (if below (sense s) (thermostat_setting s) \<and> 0 < active_cells_count s \<and>
           radiator_mask s ! i ! j
        then heating_factor_per_step s * u s ! i ! j else 0)"
proof -
  obtain s1 where s1: "update_interior s = Inr s1" "apply_boundary_conditions s1 = Inr s'"
    "wf s1" "nx s1 = nx s" "ny s1 = ny s"
    using step_split [OF wf st] by metis
  have n3: "2 \<le> nx s1" "2 \<le> ny s1" "3 \<le> nx s1 \<and> 3 \<le> ny s1" "i < ny s" "j < nx s"
    using ij s1(4,5) by simp_all
  obtain w where w: "apply_boundary_conditions s1 = Inr (s1\<lparr>u := w\<rparr>)"
    "\<forall>i j. 1 \<le> i \<and> i + 1 < ny s1 \<and> 1 \<le> j \<and> j + 1 < nx s1 \<longrightarrow> w ! i ! j = u s1 ! i ! j"
    using bc_result [OF wf_shapes(1) [OF s1(3)] n3(1,2)] n3(3) by blast
  have "u s' = w" using w(1) s1(2) by auto
  then have "u s' ! i ! j = u s1 ! i ! j"
    using w(2) ij s1(4,5) by simp
  moreover have "u s1 ! i ! j =
     u s ! i ! j
     + (alpha s * dt s) / (dx s)\<^sup>2 *
       (u s ! (i - 1) ! j + u s ! (i + 1) ! j + u s ! i ! (j - 1) + u s ! i ! (j + 1)
        - 4 * u s ! i ! j)
     + (if below (sense s) (thermostat_setting s) \<and> 0 < active_cells_count s \<and>
           radiator_mask s ! i ! j
        then heating_factor_per_step s * u s ! i ! j else 0)"
    using update_interior_result [OF wf] s1(1) ij n3(4,5) by auto
  ultimately show ?thesis by simp
qed

lemma step_edges_closed:
  assumes wf: "wf s" and nx3: "3 \<le> nx s" and ny3: "3 \<le> ny s" and st: "step s = Inr s'"
  shows
    "(\<forall>i. 1 \<le> i \<and> i + 1 < ny s \<longrightarrow>
        u s' ! i ! 0 =
          robin (if window_left s \<and> (ny s - ny s div 2) div 2 \<le> i \<and>
                    i < (ny s - ny s div 2) div 2 + ny s div 2
                 then beta_window s else beta_wall s) (u_outdoor s) (u s' ! i ! 1) \<and>
        u s' ! i ! (nx s - 1) =
          robin (if window_right s \<and> (ny s - ny s div 2) div 2 \<le> i \<and>
                    i < (ny s - ny s div 2) div 2 + ny s div 2
                 then beta_window s else beta_wall s) (u_outdoor s) (u s' ! i ! (nx s - 2))) \<and>
     (\<forall>j. 1 \<le> j \<and> j + 1 < nx s \<longrightarrow>
        u s' ! (ny s - 1) ! j = robin (beta_wall s) (u_outdoor s) (u s' ! (ny s - 2) ! j) \<and>
        u s' ! 0 ! j = robin (beta_wall s) (u_outdoor s) (u s' ! 1 ! j)) \<and>
     u s' ! 0 ! 0 =
       robin (beta_wall s) (u_outdoor s) (robin (beta_wall s) (u_outdoor s) (u s' ! 1 ! 1)) \<and>
     u s' ! 0 ! (nx s - 1) =
       robin (beta_wall s) (u_outdoor s)
         (robin (beta_wall s) (u_outdoor s) (u s' ! 1 ! (nx s - 2))) \<and>
     u s' ! (ny s - 1) ! 0 =
       robin (beta_wall s) (u_outdoor s)
         (robin (beta_wall s) (u_outdoor s) (u s' ! (ny s - 2) ! 1)) \<and>
     u s' ! (ny s - 1) ! (nx s - 1) =
       robin (beta_wall s) (u_outdoor s)
         (robin (beta_wall s) (u_outdoor s) (u s' ! (ny s - 2) ! (nx s - 2)))"
proof -
  obtain s1 where s1: "update_interior s = Inr s1" "apply_boundary_conditions s1 = Inr s'"
    "wf s1" "nx s1 = nx s" "ny s1 = ny s" "beta_wall s1 = beta_wall s"
    "beta_window s1 = beta_window s" "u_outdoor s1 = u_outdoor s"
    "window_left s1 = window_left s" "window_right s1 = window_right s"
    using step_split [OF wf st] by metis
  have n2: "2 \<le> nx s1" "2 \<le> ny s1" and n3: "3 \<le> nx s1 \<and> 3 \<le> ny s1"
    using nx3 ny3 s1(4,5) by simp_all
  from bc_result [OF wf_shapes(1) [OF s1(3)] n2] n3
  obtain w where w: "apply_boundary_conditions s1 = Inr (s1\<lparr>u := w\<rparr>)"
    and int: "\<And>i j. 1 \<le> i \<and> i + 1 < ny s \<and> 1 \<le> j \<and> j + 1 < nx s \<Longrightarrow> w ! i ! j = u s1 ! i ! j"
    and cols: "\<And>i. 1 \<le> i \<and> i + 1 < ny s \<Longrightarrow>
        w ! i ! 0 =
          robin (if window_left s \<and> (ny s - ny s div 2) div 2 \<le> i \<and>
                    i < (ny s - ny s div 2) div 2 + ny s div 2
                 then beta_window s else beta_wall s) (u_outdoor s) (u s1 ! i ! 1) \<and>
        w ! i ! (nx s - 1) =
          robin (if window_right s \<and> (ny s - ny s div 2) div 2 \<le> i \<and>
                    i < (ny s - ny s div 2) div 2 + ny s div 2
                 then beta_window s else beta_wall s) (u_outdoor s) (u s1 ! i ! (nx s - 2))"
    and rows: "\<And>j. 1 \<le> j \<and> j + 1 < nx s \<Longrightarrow>
        w ! (ny s - 1) ! j = robin (beta_wall s) (u_outdoor s) (u s1 ! (ny s - 2) ! j) \<and>
        w ! 0 ! j = robin (beta_wall s) (u_outdoor s) (u s1 ! 1 ! j)"
    and corners:
      "w ! 0 ! 0 = robin (beta_wall s) (u_outdoor s) (robin (beta_wall s) (u_outdoor s) (u s1 ! 1 ! 1))"
      "w ! 0 ! (nx s - 1) =
         robin (beta_wall s) (u_outdoor s) (robin (beta_wall s) (u_outdoor s) (u s1 ! 1 ! (nx s - 2)))"
      "w ! (ny s - 1) ! 0 =
         robin (beta_wall s) (u_outdoor s) (robin (beta_wall s) (u_outdoor s) (u s1 ! (ny s - 2) ! 1))"
      "w ! (ny s - 1) ! (nx s - 1) =
         robin (beta_wall s) (u_outdoor s)
           (robin (beta_wall s) (u_outdoor s) (u s1 ! (ny s - 2) ! (nx s - 2)))"
    unfolding s1(4-10) by blast
  have uw: "u s' = w" using w s1(2) by auto
  have i1: "w ! i ! 1 = u s1 ! i ! 1" "w ! i ! (nx s - 2) = u s1 ! i ! (nx s - 2)"
    if "1 \<le> i \<and> i + 1 < ny s" for i
    using that nx3 by (auto intro!: int)
  have j1: "w ! 1 ! j = u s1 ! 1 ! j" "w ! (ny s - 2) ! j = u s1 ! (ny s - 2) ! j"
    if "1 \<le> j \<and> j + 1 < nx s" for j
    using that ny3 by (auto intro!: int)
  have c: "w ! 1 ! 1 = u s1 ! 1 ! 1" "w ! 1 ! (nx s - 2) = u s1 ! 1 ! (nx s - 2)"
    "w ! (ny s - 2) ! 1 = u s1 ! (ny s - 2) ! 1"
    "w ! (ny s - 2) ! (nx s - 2) = u s1 ! (ny s - 2) ! (nx s - 2)"
    using nx3 ny3 by (auto intro!: int)
  show ?thesis
    unfolding uw
    by (intro conjI allI impI) (simp_all only: i1 j1 c cols rows corners)
qed

section \<open>Runs and sequences of calls\<close>

lemma step_keeps:
  assumes "wf s" "step s = Inr s'"
  shows "P s' = P s" "dt s' = dt s" "nx s' = nx s" "ny s' = ny s" "mask_inner s' = mask_inner s"
    "active_cells_count s' = active_cells_count s"
  by (subst step_frame(1) [OF assms], simp)+

lemma run_loop_energy:
  assumes "wf s" "0 \<le> P s * dt s" "run_loop steps i k s = (n, Inr s')"
  shows "total_energy s \<le> total_energy s'"
  using assms
proof (induction k arbitrary: i s)
  case 0
  then show ?case by simp
next
  case (Suc k)
  from Suc.prems(3) obtain s1 where s1: "step s = Inr s1"
    and rest: "run_loop steps (Suc i) k s1 = (n, Inr s')"
    by (auto split: sum.splits if_splits)
  note keep = step_keeps [OF Suc.prems(1) s1]
  have "total_energy s \<le> total_energy s1"
    using step_frame(2) [OF Suc.prems(1) s1] Suc.prems(2) by (simp split: if_splits)
  moreover have "total_energy s1 \<le> total_energy s'"
    using Suc.IH [OF step_wf [OF Suc.prems(1) s1] _ rest] Suc.prems(2) keep by simp
  ultimately show ?case by simp
qed

lemma run_loop_exact:
  assumes "wf s" "2 \<le> nx s" "2 \<le> ny s" "steps div 10 \<noteq> 0"
  shows "\<exists>s'. run_loop steps i k s = (i + k, Inr s') \<and> wf s' \<and> mask_inner s' = mask_inner s"
  using assms(1-3)
proof (induction k arbitrary: i s)
  case 0
  then show ?case by simp
next
  case (Suc k)
  obtain s1 where s1: "step s = Inr s1"
    using step_total [OF Suc.prems] by blast
  note keep = step_keeps [OF Suc.prems(1) s1]
  from Suc.IH [OF step_wf [OF Suc.prems(1) s1], of "Suc i"] Suc.prems(2,3) keep
  obtain s' where "run_loop steps (Suc i) k s1 = (Suc i + k, Inr s')" "wf s'"
    "mask_inner s' = mask_inner s1"
    by auto
  then show ?case using s1 assms(4) keep by simp
qed

lemma run_exact:
  assumes "wf s" "2 \<le> nx s" "2 \<le> ny s" "steps \<le> 0 \<or> 10 \<le> steps"
  shows "\<exists>s'. run steps s = (nat steps, Inr s')"
proof (cases "steps \<le> 0")
  case True
  then show ?thesis by (simp add: run_def)
next
  case False
  with assms(4) have "steps div 10 \<noteq> 0" by simp
  from run_loop_exact [OF assms(1-3) this, of 0 "nat steps"] show ?thesis
    by (auto simp: run_def)
qed

lemma run_small:
  assumes "wf s" "2 \<le> nx s" "2 \<le> ny s" "1 \<le> steps" "steps \<le> 9"
  shows "run steps s = (1, Inl ZeroDivisionError)"
proof -
  obtain s1 where s1: "step s = Inr s1"
    using step_total [OF assms(1-3)] by blast
  obtain k where k: "nat steps = Suc k"
    using assms(4) by (cases "nat steps") simp_all
  have "steps div 10 = 0" using assms(4,5) by simp
  then show ?thesis by (simp add: run_def k s1)
qed

lemma run_loop_inv:
  assumes "wf s" "run_loop steps i k s = (n, Inr s')"
  shows "wf s' \<and> mask_inner s' = mask_inner s"
  using assms
proof (induction k arbitrary: i s)
  case 0
  then show ?case by simp
next
  case (Suc k)
  from Suc.prems(2) obtain s1 where s1: "step s = Inr s1"
    and rest: "run_loop steps (Suc i) k s1 = (n, Inr s')"
    by (auto split: sum.splits if_splits)
  show ?case
    using Suc.IH [OF step_wf [OF Suc.prems(1) s1] rest] step_keeps(5) [OF Suc.prems(1) s1]
    by simp
qed

lemma apply_call_no_add:
  assumes "wf s" "mask_inner s = None" "\<not> is_add_radiator c" "apply_call c s = Inr s'"
  shows "wf s' \<and> mask_inner s' = None"
proof (cases c)
  case (Set_windows l r)
  then show ?thesis using assms set_windows_wf [OF assms(1), of l r]
    by (auto simp: set_windows_def)
next
  case Clear_radiators
  then show ?thesis using assms clear_radiators_wf [OF assms(1)]
    by (auto simp: clear_radiators_def Let_def)
next
  case (Add_radiator a b c d)
  then show ?thesis using assms by simp
next
  case (Set_sensor_region a b)
  then show ?thesis using assms set_sensor_region_wf [OF assms(1), of a b s']
    by (auto simp: set_sensor_region_def Let_def split: if_splits)
next
  case Step
  then show ?thesis using assms step_wf [OF assms(1), of s'] step_keeps(5) [OF assms(1), of s']
    by auto
next
  case (Run steps)
  then have "run_loop steps 0 (nat steps) s = (fst (run steps s), Inr s')"
    using assms(4) by (cases "run_loop steps 0 (nat steps) s") (simp add: run_def)
  from run_loop_inv [OF assms(1) this] assms(2) show ?thesis by simp
qed

lemma apply_calls_no_add:
  assumes "wf s" "mask_inner s = None" "list_all (\<lambda>c. \<not> is_add_radiator c) cs"
    "apply_calls cs s = Inr s'"
  shows "wf s' \<and> mask_inner s' = None"
  using assms
proof (induction cs arbitrary: s)
  case Nil
  then show ?case by simp
next
  case (Cons c cs)
  from Cons.prems(4) obtain s1 where s1: "apply_call c s = Inr s1" and rest: "apply_calls cs s1 = Inr s'"
    by (auto split: sum.splits)
  from apply_call_no_add [OF Cons.prems(1,2) _ s1] Cons.prems(3)
  have "wf s1 \<and> mask_inner s1 = None" by simp
  then show ?case using Cons.IH [OF _ _ _ rest] Cons.prems(3) by simp
qed

lemma init_mask_inner: "init c = Inr s \<Longrightarrow> mask_inner s = None"
  by (auto simp: init_def Let_def split: if_splits)


section \<open>Masks\<close>

lemma in_slice_rows: "in_slice n 1 (Some (- 1)) i \<longleftrightarrow> 1 \<le> i \<and> i + 1 < n"
  by (rule in_slice_inner)

lemma in_slice_cols:
  assumes "0 \<le> a" "0 \<le> b" "j < n"
  shows "in_slice n a (Some (min b (int n))) j \<longleftrightarrow> a \<le> int j \<and> int j < min b (int n)"
  using assms by (auto simp: in_slice_def slice_bound_def slice_end_def)

lemma count_true_card:
  assumes "shape_ok r c m"
  shows "count_true m = card {(i, j). i < r \<and> j < c \<and> m ! i ! j}"
proof -
  from assms have len: "length m = r" and rows: "\<And>i. i < r \<Longrightarrow> length (m ! i) = c"
    by (auto dest: shape_okD)
  have "count_true m = (\<Sum>i = 0..<r. length (filter id (m ! i)))"
    by (simp add: count_true_def sum_list_sum_nth len)
  also have "\<dots> = (\<Sum>i = 0..<r. card {j. j < c \<and> m ! i ! j})"
    by (rule sum.cong) (simp_all add: length_filter_conv_card rows)
  also have "\<dots> = card (SIGMA i:{0..<r}. {j. j < c \<and> m ! i ! j})"
    by (subst card_SigmaI) simp_all
  also have "(SIGMA i:{0..<r}. {j. j < c \<and> m ! i ! j}) = {(i, j). i < r \<and> j < c \<and> m ! i ! j}"
    by auto
  finally show ?thesis .
qed

lemma count_true_inner_card:
  assumes "shape_ok r c m"
  shows "count_true (view_inner m) =
     card {(i, j). 1 \<le> i \<and> i + 1 < r \<and> 1 \<le> j \<and> j + 1 < c \<and> m ! i ! j}"
proof -
  let ?A = "{(i, j). i < r - 2 \<and> j < c - 2 \<and> view_inner m ! i ! j}"
  let ?B = "{(i, j). 1 \<le> i \<and> i + 1 < r \<and> 1 \<le> j \<and> j + 1 < c \<and> m ! i ! j}"
  let ?f = "\<lambda>(i, j). (i + 1, j + (1::nat))"
  have inner: "view_inner m ! i ! j = m ! (i + 1) ! (j + 1)" if "i < r - 2" "j < c - 2" for i j
    using that by (intro nth_view_inner [OF assms]) simp_all
  have "?f ` ?A = ?B"
  proof (intro set_eqI iffI)
    fix x assume "x \<in> ?f ` ?A"
    then show "x \<in> ?B" using inner by auto
  next
    fix x assume x: "x \<in> ?B"
    obtain i j where ij: "x = (i, j)" by (cases x)
    with x have b: "1 \<le> i" "i + 1 < r" "1 \<le> j" "j + 1 < c" "m ! i ! j" by simp_all
    have lt: "i - 1 < r - 2" "j - 1 < c - 2" using b(1-4) by linarith+
    have rt: "i - 1 + 1 = i" "j - 1 + 1 = j" using b(1,3) by simp_all
    have "view_inner m ! (i - 1) ! (j - 1) = m ! i ! j"
      using inner [OF lt] by (simp only: rt)
    with b(5) lt have mem: "(i - 1, j - 1) \<in> ?A" by simp
    have "x = ?f (i - 1, j - 1)" using rt ij by simp
    then show "x \<in> ?f ` ?A" using mem by (rule image_eqI)
  qed
  moreover have "inj_on ?f ?A" by (auto simp: inj_on_def)
  ultimately have "card ?B = card ?A" using card_image [of ?f ?A] by simp
  then show ?thesis
    using count_true_card [OF shape_view_inner [OF assms]] by simp
qed

lemma add_radiator_fields:
  assumes "add_radiator x_start y_start width height s = Inr s'"
  shows "mask_inner s' = Some (view_inner (radiator_mask s'))"
    and "active_cells_count s' = count_true (view_inner (radiator_mask s'))"
    and "nx s' = nx s" and "ny s' = ny s" and "u s' = u s"
  using assms by (auto simp: add_radiator_def Let_def split: if_splits)

lemma update_interior_outer:
  assumes "wf s" "update_interior s = Inr s1" "i < ny s" "j < nx s"
    "\<not> (1 \<le> i \<and> i + 1 < ny s \<and> 1 \<le> j \<and> j + 1 < nx s)"
  shows "u s1 ! i ! j = u s ! i ! j"
  using update_interior_result [OF assms(1)] assms(2-5) by auto

lemma not_isl_projr: "\<not> isl x \<Longrightarrow> x = Inr (projr x)"
  by (cases x) simp_all

section \<open>The claims\<close>

subsection \<open>C5: what the constructor rejects\<close>

text \<open>
  C5 says that a configuration with non-positive \<open>dx\<close>, \<open>dt\<close>, \<open>Lx\<close> or \<open>Ly\<close>, or with
  fewer than three rows or columns, is rejected when the solver is constructed. The
  constructor has no such check. With \<open>Lx = Ly = dx = 1\<close> and \<open>dt = -1\<close> (a negative time
  step, a grid of one cell) it returns a solver, and the error appears at the first
  \<^verbatim>\<open>step()\<close>, as an \<^verbatim>\<open>IndexError\<close>.
\<close>

theorem init_accepts_degenerate_config:
  "\<not> isl (init (example_config 1 1 1 (- 1) 100)) \<and>
   step (projr (init (example_config 1 1 1 (- 1) 100))) = Inl IndexError"
  by code_simp

text \<open>
  C5 (amended): constructing the solver raises exactly when \<open>dx = 0\<close>, when \<open>round(Lx/dx)\<close>
  or \<open>round(Ly/dx)\<close> is negative, or when \<open>lambda_air = 0\<close>; every other configuration is
  accepted, whatever the sign of \<open>dt\<close> and however small the grid. On a solver so
  constructed with fewer than two rows or columns, \<^verbatim>\<open>step()\<close> raises \<^verbatim>\<open>IndexError\<close>.
\<close>

theorem init_raises_iff:
  "(isl (init c) \<longleftrightarrow>
      cfg_dx c = 0 \<or> py_round (cfg_Lx c / cfg_dx c) < 0 \<or> py_round (cfg_Ly c / cfg_dx c) < 0 \<or>
      cfg_lambda_air c = Some 0) \<and>
   (\<forall>s. init c = Inr s \<and> (nx s < 2 \<or> ny s < 2) \<longrightarrow> step s = Inl IndexError)"
proof (intro conjI allI impI)
  show "isl (init c) \<longleftrightarrow>
      cfg_dx c = 0 \<or> py_round (cfg_Lx c / cfg_dx c) < 0 \<or> py_round (cfg_Ly c / cfg_dx c) < 0 \<or>
      cfg_lambda_air c = Some 0"
    by (cases "cfg_lambda_air c") (auto simp: init_def Let_def get_default_def)
next
  fix s assume "init c = Inr s \<and> (nx s < 2 \<or> ny s < 2)"
  then show "step s = Inl IndexError"
    using init_wf [of c s] step_small [of s] by blast
qed

theorem init_raises_iff_witness:
  "init (example_config 1 3 1 (1 / 10) 100) = Inr (projr (init (example_config 1 3 1 (1 / 10) 100))) \<and>
   nx (projr (init (example_config 1 3 1 (1 / 10) 100))) < 2 \<and>
   step (projr (init (example_config 1 3 1 (1 / 10) 100))) = Inl IndexError"
proof -
  have a: "init (example_config 1 3 1 (1 / 10) 100) = Inr (projr (init (example_config 1 3 1 (1 / 10) 100)))"
    by code_simp
  have b: "nx (projr (init (example_config 1 3 1 (1 / 10) 100))) < 2"
    by code_simp
  show ?thesis
    using a b init_raises_iff [of "example_config 1 3 1 (1 / 10) 100"] by blast
qed

subsection \<open>C6: the stability check\<close>

text \<open>
  C6 says that a configuration is reported unstable exactly when
  \<open>dt > 0.34 * dx\<^sup>2 / alpha\<close>. The only stability check of the repository is the one of
  the notebook, which compares \<open>dt\<close> with \<open>0.34 * h\<^sup>2\<close> and does not use \<open>alpha\<close>. For
  \<open>dx = 2\<close>, \<open>alpha = 1.25\<close> and \<open>dt = 1.2\<close> the claimed bound \<open>1.088\<close> is exceeded, and the
  check reports no instability.
\<close>

theorem stability_check_ignores_alpha:
  "\<not> (stability_check (6 / 5) 2 = Unstable \<longleftrightarrow> (6 / 5 :: real) > 0.34 * 2\<^sup>2 / 1.25)"
  by (simp add: stability_check_def)

text \<open>
  C6 (amended): the check reports a configuration as unstable exactly when
  \<open>dt > 0.34 * dx\<^sup>2\<close> and as stable otherwise, whatever \<open>alpha\<close> is; for \<open>dx = 2\<close> it reports
  unstable precisely when \<open>dt > 1.36\<close>.
\<close>

theorem stability_check_threshold:
  "(stability_check dt0 h = Unstable \<longleftrightarrow> 0.34 * h\<^sup>2 < dt0) \<and>
   (stability_check dt0 h = Okay \<longleftrightarrow> dt0 \<le> 0.34 * h\<^sup>2) \<and>
   (stability_check dt0 2 = Unstable \<longleftrightarrow> 1.36 < dt0)"
  by (auto simp: stability_check_def)

subsection \<open>C1: the boundary edges after a step\<close>

text \<open>
  C1 says, of every solver state, that \<^verbatim>\<open>step()\<close> overwrites the four edges, each edge cell
  with the closed form of its adjacent interior value. The constructor accepts grids
  without an interior. On the room of one column \<^verbatim>\<open>step()\<close> raises \<^verbatim>\<open>IndexError\<close> and
  overwrites nothing. On the room of two columns it returns, but the right column is
  computed from the left column just written: the left edge cell of row 1 ends as \<open>5\<close>,
  its neighbour as \<open>5/2\<close>, and the closed form of that neighbour is \<open>5/4\<close>.
\<close>

theorem step_boundary_form_fails_without_interior:
  "step example_one_column = Inl IndexError \<and>
   step example_two_columns = Inr (projr (step example_two_columns)) \<and>
   u (projr (step example_two_columns)) ! 1 ! 0 \<noteq>
     (u (projr (step example_two_columns)) ! 1 ! 1
        + beta_wall example_two_columns * u_outdoor example_two_columns)
     / (1 + beta_wall example_two_columns)"
  by code_simp

text \<open>
  C1 (amended): on a well-formed solver whose grid has at least two rows and two
  columns, \<^verbatim>\<open>step()\<close> returns; it first updates the interior cells by diffusion and source
  (field \<open>u s1\<close>) and then overwrites the boundary by six writes in this order, each
  reading the field as the write before it left it: the left column from column 1
  (\<open>u1\<close>), the right column from column \<open>nx - 2\<close> (\<open>u2\<close>), the bottom row, which is the
  last one, from row \<open>ny - 2\<close> (\<open>u3\<close>), the top row, which is row 0, from row 1 (\<open>u4\<close>), each
  cell becoming \<open>(v + beta_wall * u_outdoor) / (1 + beta_wall)\<close> for the cell \<open>v\<close> read;
  then, if \<^verbatim>\<open>window_left\<close> is set, the rows in
  \<open>[\<lfloor>(ny - \<lfloor>ny/2\<rfloor>)/2\<rfloor>, \<lfloor>(ny - \<lfloor>ny/2\<rfloor>)/2\<rfloor> + \<lfloor>ny/2\<rfloor>)\<close> of the left column again from column 1
  with \<open>beta_window\<close> in place of \<open>beta_wall\<close> (\<open>u5\<close>), and if \<^verbatim>\<open>window_right\<close> is set, the
  same rows of the right column from column \<open>nx - 2\<close> (the field after the step). On a
  grid with an interior (\<open>nx \<ge> 3\<close>, \<open>ny \<ge> 3\<close>) every edge cell that is no corner then holds
  \<open>(v + beta * u_outdoor) / (1 + beta)\<close> for its adjacent interior cell \<open>v\<close> of the field
  after the step, with \<open>beta_window\<close> exactly on the window rows of a side column whose
  flag is set and \<open>beta_wall\<close> elsewhere, so that the top and bottom edges never receive
  window treatment, and a corner holds the wall form applied twice to the interior cell
  diagonally next to it. On a grid with fewer than two rows or columns \<^verbatim>\<open>step()\<close> raises
  \<^verbatim>\<open>IndexError\<close>.
\<close>

theorem step_boundary_edges:
  assumes wf: "wf s"
  shows
    "(nx s < 2 \<or> ny s < 2 \<longrightarrow> step s = Inl IndexError) \<and>
     (2 \<le> nx s \<and> 2 \<le> ny s \<longrightarrow>
       (\<exists>s1 u1 u2 u3 u4 u5 s'.
          update_interior s = Inr s1 \<and> step s = Inr s' \<and>
          (\<forall>i j. i < ny s \<and> j < nx s \<longrightarrow>
            u s1 ! i ! j =
              (if 1 \<le> i \<and> i + 1 < ny s \<and> 1 \<le> j \<and> j + 1 < nx s
               then u s ! i ! j
                    + (alpha s * dt s) / (dx s)\<^sup>2 *
                      (u s ! (i - 1) ! j + u s ! (i + 1) ! j + u s ! i ! (j - 1) + u s ! i ! (j + 1)
                       - 4 * u s ! i ! j)
                    + (if below (sense s) (thermostat_setting s) \<and> 0 < active_cells_count s \<and>
                          radiator_mask s ! i ! j
                       then heating_factor_per_step s * u s ! i ! j else 0)
               else u s ! i ! j)) \<and>
          (\<forall>i j. i < ny s \<and> j < nx s \<longrightarrow>
            u1 ! i ! j =
              (if j = 0 then (u s1 ! i ! 1 + beta_wall s * u_outdoor s) / (1 + beta_wall s)
               else u s1 ! i ! j)) \<and>
          (\<forall>i j. i < ny s \<and> j < nx s \<longrightarrow>
            u2 ! i ! j =
              (if j = nx s - 1
               then (u1 ! i ! (nx s - 2) + beta_wall s * u_outdoor s) / (1 + beta_wall s)
               else u1 ! i ! j)) \<and>
          (\<forall>i j. i < ny s \<and> j < nx s \<longrightarrow>
            u3 ! i ! j =
              (if i = ny s - 1
               then (u2 ! (ny s - 2) ! j + beta_wall s * u_outdoor s) / (1 + beta_wall s)
               else u2 ! i ! j)) \<and>
          (\<forall>i j. i < ny s \<and> j < nx s \<longrightarrow>
            u4 ! i ! j =
              (if i = 0 then (u3 ! 1 ! j + beta_wall s * u_outdoor s) / (1 + beta_wall s)
               else u3 ! i ! j)) \<and>
          (\<forall>i j. i < ny s \<and> j < nx s \<longrightarrow>
            u5 ! i ! j =
              (if window_left s \<and> (ny s - ny s div 2) div 2 \<le> i \<and>
                  i < (ny s - ny s div 2) div 2 + ny s div 2 \<and> j = 0
               then (u4 ! i ! 1 + beta_window s * u_outdoor s) / (1 + beta_window s)
               else u4 ! i ! j)) \<and>
          (\<forall>i j. i < ny s \<and> j < nx s \<longrightarrow>
            u s' ! i ! j =
              (if window_right s \<and> (ny s - ny s div 2) div 2 \<le> i \<and>
                  i < (ny s - ny s div 2) div 2 + ny s div 2 \<and> j = nx s - 1
               then (u5 ! i ! (nx s - 2) + beta_window s * u_outdoor s) / (1 + beta_window s)
               else u5 ! i ! j)))) \<and>
     (3 \<le> nx s \<and> 3 \<le> ny s \<longrightarrow>
       (\<forall>s'. step s = Inr s' \<longrightarrow>
       (\<forall>i. 1 \<le> i \<and> i + 1 < ny s \<longrightarrow>
          u s' ! i ! 0 =
            (u s' ! i ! 1 +
               (if window_left s \<and> (ny s - ny s div 2) div 2 \<le> i \<and>
                   i < (ny s - ny s div 2) div 2 + ny s div 2
                then beta_window s else beta_wall s) * u_outdoor s) /
            (1 +
               (if window_left s \<and> (ny s - ny s div 2) div 2 \<le> i \<and>
                   i < (ny s - ny s div 2) div 2 + ny s div 2
                then beta_window s else beta_wall s)) \<and>
          u s' ! i ! (nx s - 1) =
            (u s' ! i ! (nx s - 2) +
               (if window_right s \<and> (ny s - ny s div 2) div 2 \<le> i \<and>
                   i < (ny s - ny s div 2) div 2 + ny s div 2
                then beta_window s else beta_wall s) * u_outdoor s) /
            (1 +
               (if window_right s \<and> (ny s - ny s div 2) div 2 \<le> i \<and>
                   i < (ny s - ny s div 2) div 2 + ny s div 2
                then beta_window s else beta_wall s))) \<and>
       (\<forall>j. 1 \<le> j \<and> j + 1 < nx s \<longrightarrow>
          u s' ! (ny s - 1) ! j =
            (u s' ! (ny s - 2) ! j + beta_wall s * u_outdoor s) / (1 + beta_wall s) \<and>
          u s' ! 0 ! j = (u s' ! 1 ! j + beta_wall s * u_outdoor s) / (1 + beta_wall s)) \<and>
       u s' ! 0 ! 0 =
         ((u s' ! 1 ! 1 + beta_wall s * u_outdoor s) / (1 + beta_wall s)
            + beta_wall s * u_outdoor s) / (1 + beta_wall s) \<and>
       u s' ! 0 ! (nx s - 1) =
         ((u s' ! 1 ! (nx s - 2) + beta_wall s * u_outdoor s) / (1 + beta_wall s)
            + beta_wall s * u_outdoor s) / (1 + beta_wall s) \<and>
       u s' ! (ny s - 1) ! 0 =
         ((u s' ! (ny s - 2) ! 1 + beta_wall s * u_outdoor s) / (1 + beta_wall s)
            + beta_wall s * u_outdoor s) / (1 + beta_wall s) \<and>
       u s' ! (ny s - 1) ! (nx s - 1) =
         ((u s' ! (ny s - 2) ! (nx s - 2) + beta_wall s * u_outdoor s) / (1 + beta_wall s)
            + beta_wall s * u_outdoor s) / (1 + beta_wall s)))"
    (is "?A \<and> (?P2 \<longrightarrow> ?B) \<and> (?P3 \<longrightarrow> (\<forall>s'. ?st s' \<longrightarrow> ?C s'))")
proof -
  have A: ?A
  proof (rule impI)
    assume "nx s < 2 \<or> ny s < 2"
    then show "step s = Inl IndexError" by (rule step_small [OF wf])
  qed
  have B: "?P2 \<longrightarrow> ?B"
  proof (rule impI)
  assume n2: "2 \<le> nx s \<and> 2 \<le> ny s"
  from update_interior_result [OF wf] obtain s1
    where s1: "update_interior s = Inr s1"
      and upd: "(\<forall>i j. i < ny s \<and> j < nx s \<longrightarrow>
          u s1 ! i ! j =
            (if 1 \<le> i \<and> i + 1 < ny s \<and> 1 \<le> j \<and> j + 1 < nx s
             then u s ! i ! j
                  + (alpha s * dt s) / (dx s)\<^sup>2 *
                    (u s ! (i - 1) ! j + u s ! (i + 1) ! j + u s ! i ! (j - 1) + u s ! i ! (j + 1)
                     - 4 * u s ! i ! j)
                  + (if below (sense s) (thermostat_setting s) \<and> 0 < active_cells_count s \<and>
                        radiator_mask s ! i ! j
                     then heating_factor_per_step s * u s ! i ! j else 0)
             else u s ! i ! j))"
    by blast
  note f = update_interior_fields [OF wf s1]
  have k: "nx s1 = nx s" "ny s1 = ny s" "beta_wall s1 = beta_wall s"
    "beta_window s1 = beta_window s" "u_outdoor s1 = u_outdoor s"
    "window_left s1 = window_left s" "window_right s1 = window_right s"
    by (subst f(1), simp)+
  have sh1: "shape_ok (ny s1) (nx s1) (u s1)"
    using f(2) k by simp
  note stages = bc_stages [OF sh1, unfolded k robin_def, OF conjunct1 [OF n2] conjunct2 [OF n2]]
  from stages obtain u1 u2 u3 u4 u5 w
    where res: "apply_boundary_conditions s1 = Inr (s1\<lparr>u := w\<rparr>)"
      and c1: "(\<forall>i j. i < ny s \<and> j < nx s \<longrightarrow>
            u1 ! i ! j =
              (if j = 0 then (u s1 ! i ! 1 + beta_wall s * u_outdoor s) / (1 + beta_wall s)
               else u s1 ! i ! j))"
      and c2: "(\<forall>i j. i < ny s \<and> j < nx s \<longrightarrow>
            u2 ! i ! j =
              (if j = nx s - 1
               then (u1 ! i ! (nx s - 2) + beta_wall s * u_outdoor s) / (1 + beta_wall s)
               else u1 ! i ! j))"
      and c3: "(\<forall>i j. i < ny s \<and> j < nx s \<longrightarrow>
            u3 ! i ! j =
              (if i = ny s - 1
               then (u2 ! (ny s - 2) ! j + beta_wall s * u_outdoor s) / (1 + beta_wall s)
               else u2 ! i ! j))"
      and c4: "(\<forall>i j. i < ny s \<and> j < nx s \<longrightarrow>
            u4 ! i ! j =
              (if i = 0 then (u3 ! 1 ! j + beta_wall s * u_outdoor s) / (1 + beta_wall s)
               else u3 ! i ! j))"
      and c5: "(\<forall>i j. i < ny s \<and> j < nx s \<longrightarrow>
            u5 ! i ! j =
              (if window_left s \<and> (ny s - ny s div 2) div 2 \<le> i \<and>
                  i < (ny s - ny s div 2) div 2 + ny s div 2 \<and> j = 0
               then (u4 ! i ! 1 + beta_window s * u_outdoor s) / (1 + beta_window s)
               else u4 ! i ! j))"
      and c6: "(\<forall>i j. i < ny s \<and> j < nx s \<longrightarrow>
            w ! i ! j =
              (if window_right s \<and> (ny s - ny s div 2) div 2 \<le> i \<and>
                  i < (ny s - ny s div 2) div 2 + ny s div 2 \<and> j = nx s - 1
               then (u5 ! i ! (nx s - 2) + beta_window s * u_outdoor s) / (1 + beta_window s)
               else u5 ! i ! j))"
    by blast
  have stp: "step s = Inr (s1\<lparr>u := w\<rparr>)"
    using s1 res by (simp add: step_def)
  have last: "u (s1\<lparr>u := w\<rparr>) = w" by simp
  show ?B
    apply (rule exI [of _ s1], rule exI [of _ u1], rule exI [of _ u2], rule exI [of _ u3])
    apply (rule exI [of _ u4], rule exI [of _ u5], rule exI [of _ "s1\<lparr>u := w\<rparr>"])
    unfolding last
    by (intro conjI s1 stp upd c1 c2 c3 c4 c5 c6)
  qed
  have C: "?P3 \<longrightarrow> (\<forall>s'. ?st s' \<longrightarrow> ?C s')"
  proof (intro impI allI)
    fix s' assume n3: "3 \<le> nx s \<and> 3 \<le> ny s" and st: "step s = Inr s'"
    show "?C s'"
      by (rule step_edges_closed [OF wf conjunct1 [OF n3] conjunct2 [OF n3] st,
            unfolded robin_def])
  qed
  show ?thesis
    by (rule conjI [OF A conjI [OF B C]])
qed

theorem step_boundary_edges_witness:
  "wf example_windowed \<and> 3 \<le> nx example_windowed \<and> 3 \<le> ny example_windowed \<and>
   step example_windowed = Inr (projr (step example_windowed)) \<and>
   u (projr (step example_windowed)) ! 1 ! 0 = 118 / 5 \<and>
   u (projr (step example_windowed)) ! 0 ! 1 = 56 \<and>
   u (projr (step example_windowed)) ! 0 ! 0 = 29"
proof -
  have w: "wf example_windowed" by code_simp
  have n: "3 \<le> nx example_windowed" "3 \<le> ny example_windowed" by code_simp+
  have n2: "2 \<le> nx example_windowed" "2 \<le> ny example_windowed" using n by simp_all
  have st: "step example_windowed = Inr (projr (step example_windowed))"
    using step_total [OF w n2] by auto
  have v: "ny example_windowed = 4" "nx example_windowed = 4" "window_left example_windowed"
    "beta_window example_windowed = 4" "beta_wall example_windowed = 1"
    "u_outdoor example_windowed = 2" "u (projr (step example_windowed)) ! 1 ! 1 = 110"
    by code_simp+
  note t = step_boundary_edges [OF w, THEN conjunct2, THEN conjunct2, rule_format,
      OF conjI [OF n] st]
  have r: "1 \<le> (1::nat) \<and> 1 + 1 < ny example_windowed" "1 \<le> (1::nat) \<and> 1 + 1 < nx example_windowed"
    by (simp_all add: v)
  note e1 = t [THEN conjunct1, rule_format, OF r(1), THEN conjunct1]
  note e2 = t [THEN conjunct2, THEN conjunct1, rule_format, OF r(2), THEN conjunct2]
  note e3 = t [THEN conjunct2, THEN conjunct2, THEN conjunct1]
  have a: "u (projr (step example_windowed)) ! 1 ! 0 = 118 / 5"
    unfolding e1 v(1,2,4-7) by (simp add: v(3))
  have b: "u (projr (step example_windowed)) ! 0 ! 1 = 56"
    unfolding e2 v(1,2,4-7) by (simp add: v(3))
  have c: "u (projr (step example_windowed)) ! 0 ! 0 = 29"
    unfolding e3 v(1,2,4-7) by (simp add: v(3))
  show ?thesis
    by (intro conjI w n st a b c)
qed

subsection \<open>C3: the heat added to a radiator cell\<close>



subsection \<open>C2: the energy account\<close>

text \<open>
  C2 says that \<^verbatim>\<open>total_energy\<close> never decreases during a run. The constructor accepts any
  power. In the heated room with a power of \<open>-100\<close> and a time step of \<open>1/10\<close> the
  thermostat fires in the first step, and that step takes \<open>total_energy\<close> from \<open>0\<close> to
  \<open>-10\<close>.
\<close>

theorem total_energy_decreases_for_negative_power:
  "step example_cooler = Inr (projr (step example_cooler)) \<and>
   total_energy (projr (step example_cooler)) < total_energy example_cooler"
  by code_simp

text \<open>
  C2 (amended): in every \<^verbatim>\<open>step()\<close> of a well-formed solver, \<^verbatim>\<open>total_energy\<close> changes by
  exactly \<open>power * dt\<close> when the mean of the sensed region, taken on the field as it was
  before the step, is below the setpoint and \<^verbatim>\<open>active_cells_count\<close> is positive, and by
  exactly \<open>0\<close> otherwise; the step changes neither \<open>power\<close> nor \<open>dt\<close>. If \<open>power * dt\<close> is
  not negative, \<^verbatim>\<open>total_energy\<close> does not decrease in a step, nor over a run.
\<close>

theorem total_energy_per_step:
  assumes "wf s"
  shows "(\<forall>s'. step s = Inr s' \<longrightarrow>
            total_energy s' = total_energy s +
              (if below (sense s) (thermostat_setting s) \<and> 0 < active_cells_count s
               then P s * dt s else 0) \<and>
            P s' * dt s' = P s * dt s \<and>
            (0 \<le> P s * dt s \<longrightarrow> total_energy s \<le> total_energy s')) \<and>
         (0 \<le> P s * dt s \<longrightarrow>
            (\<forall>steps n s'. run steps s = (n, Inr s') \<longrightarrow> total_energy s \<le> total_energy s'))"
proof (intro conjI allI impI)
  fix s' assume st: "step s = Inr s'"
  show e: "total_energy s' = total_energy s +
      (if below (sense s) (thermostat_setting s) \<and> 0 < active_cells_count s
       then P s * dt s else 0)"
    by (rule step_frame(2) [OF assms st])
  show "P s' * dt s' = P s * dt s"
    using step_keeps(1,2) [OF assms st] by simp
  assume "0 \<le> P s * dt s"
  then show "total_energy s \<le> total_energy s'"
    using e by (simp split: if_splits)
next
  fix steps n s' assume "0 \<le> P s * dt s" "run steps s = (n, Inr s')"
  then show "total_energy s \<le> total_energy s'"
    using run_loop_energy [OF assms, of steps 0 "nat steps" n s'] by (simp add: run_def)
qed

theorem total_energy_per_step_witness:
  "wf example_heated \<and> step example_heated = Inr (projr (step example_heated)) \<and>
   0 \<le> P example_heated * dt example_heated \<and>
   total_energy (projr (step example_heated)) = total_energy example_heated + 10 \<and>
   run 10 example_heated = (10, Inr (projr (snd (run 10 example_heated)))) \<and>
   total_energy example_heated \<le> total_energy (projr (snd (run 10 example_heated)))"
proof -
  have w: "wf example_heated" by code_simp
  have n: "2 \<le> nx example_heated" "2 \<le> ny example_heated" by code_simp+
  have st: "step example_heated = Inr (projr (step example_heated))"
    using step_total [OF w] n by auto
  have r: "run 10 example_heated = (10, Inr (projr (snd (run 10 example_heated))))"
    using run_exact [OF w n, of 10] by auto
  have v: "0 \<le> P example_heated * dt example_heated" "P example_heated * dt example_heated = 10"
    "below (sense example_heated) (thermostat_setting example_heated)"
    "0 < active_cells_count example_heated"
    by code_simp+
  note t = total_energy_per_step [OF w]
  have a: "total_energy (projr (step example_heated)) = total_energy example_heated + 10"
    using t [THEN conjunct1, rule_format, OF st] v by simp
  have b: "total_energy example_heated \<le> total_energy (projr (snd (run 10 example_heated)))"
    using t [THEN conjunct2, rule_format, OF v(1) r] .
  show ?thesis
    using w st r v(1) a b by simp
qed

subsection \<open>C4: the number of steps of a run\<close>

text \<open>
  C4: \<^verbatim>\<open>run(steps)\<close> calls \<^verbatim>\<open>step()\<close> exactly \<open>steps\<close> times and returns normally. The code
  does so when \<open>steps \<le> 0\<close> or \<open>steps \<ge> 10\<close> (lemma \<open>run_exact\<close>). For \<open>1 \<le> steps \<le> 9\<close> the
  progress report divides by \<^verbatim>\<open>steps // 10\<close>, which is zero (lemma \<open>run_small\<close>): in the
  room below, \<^verbatim>\<open>run(5)\<close> calls \<^verbatim>\<open>step()\<close> once and raises \<^verbatim>\<open>ZeroDivisionError\<close>.
\<close>

theorem run_five_steps_raises:
  "run 5 example_room = (1, Inl ZeroDivisionError)"
proof -
  have w: "wf example_room" by code_simp
  have n: "2 \<le> nx example_room" "2 \<le> ny example_room" by code_simp+
  show ?thesis by (rule run_small [OF w n]) simp_all
qed

subsection \<open>C7: the cells of the sensor mask\<close>

text \<open>
  C7 says that the sensor mask selects interior cells only: the whole interior after
  construction, and interior cells of the given columns after \<^verbatim>\<open>set_sensor_region\<close>. The
  constructor sets every cell of the mask, the corner in row 0 and column 0 among them;
  \<^verbatim>\<open>set_sensor_region(0, 4)\<close> on the room of four columns selects the cell in row 1 of the
  boundary column 0.
\<close>

theorem sensor_mask_selects_boundary_cells:
  "sensor_mask example_room ! 0 ! 0 \<and>
   sensor_mask (projr (set_sensor_region 0 4 example_room)) ! 1 ! 0"
  by code_simp

text \<open>
  C7 (amended): after construction the sensor mask selects every cell of the field,
  boundary cells included. After \<^verbatim>\<open>set_sensor_region(x_start, x_end)\<close> on a well-formed
  solver with \<open>round(x_start/dx) \<ge> 0\<close> and \<open>round(x_end/dx) \<ge> 0\<close> it selects exactly the cells
  of the interior rows whose column index lies in
  \<open>[round(x_start/dx), min(round(x_end/dx), nx))\<close>; the boundary columns \<open>0\<close> and \<open>nx - 1\<close>
  are selected when they lie in that range.
\<close>

theorem sensor_mask_cells:
  "(\<forall>s. init c = Inr s \<longrightarrow> (\<forall>i j. i < ny s \<and> j < nx s \<longrightarrow> sensor_mask s ! i ! j)) \<and>
   (\<forall>s s'. wf s \<and> set_sensor_region x_start x_end s = Inr s' \<and>
       0 \<le> py_round (x_start / dx s) \<and> 0 \<le> py_round (x_end / dx s) \<longrightarrow>
       (\<forall>i j. i < ny s \<and> j < nx s \<longrightarrow>
          (sensor_mask s' ! i ! j \<longleftrightarrow>
             1 \<le> i \<and> i + 1 < ny s \<and> py_round (x_start / dx s) \<le> int j \<and>
             int j < min (py_round (x_end / dx s)) (int (nx s)))))"
proof (intro conjI allI impI)
  fix s i j assume "init c = Inr s" "i < ny s \<and> j < nx s"
  then show "sensor_mask s ! i ! j"
    by (auto simp: init_def Let_def nth_full split: if_splits)
next
  fix s s' i j
  assume a: "wf s \<and> set_sensor_region x_start x_end s = Inr s' \<and>
       0 \<le> py_round (x_start / dx s) \<and> 0 \<le> py_round (x_end / dx s)"
    and ij: "i < ny s \<and> j < nx s"
  let ?m = "assign_all False (sensor_mask s)"
  have sh: "shape_ok (ny s) (nx s) ?m"
    using a by (intro shape_assign_all wf_shapes(3)) simp
  have m: "sensor_mask s' =
      assign_rect 1 (Some (- 1)) (py_round (x_start / dx s))
        (Some (min (py_round (x_end / dx s)) (int (nx s)))) True ?m"
    using a by (auto simp: set_sensor_region_def Let_def split: if_splits)
  have f: "\<not> ?m ! i ! j"
    using nth_assign_all [OF wf_shapes(3), of s i j False] a ij by simp
  show "sensor_mask s' ! i ! j \<longleftrightarrow>
      1 \<le> i \<and> i + 1 < ny s \<and> py_round (x_start / dx s) \<le> int j \<and>
      int j < min (py_round (x_end / dx s)) (int (nx s))"
    unfolding m using ij a f
    by (simp add: nth_assign_rect [OF sh] in_slice_rows in_slice_cols)
qed

theorem sensor_mask_cells_witness:
  "init (example_config 4 4 1 (1 / 10) 100) = Inr example_room \<and>
   (0::nat) < ny example_room \<and> (0::nat) < nx example_room \<and> sensor_mask example_room ! 0 ! 0 \<and>
   wf example_room \<and>
   set_sensor_region 1 3 example_room = Inr (projr (set_sensor_region 1 3 example_room)) \<and>
   0 \<le> py_round (1 / dx example_room) \<and> 0 \<le> py_round (3 / dx example_room) \<and>
   sensor_mask (projr (set_sensor_region 1 3 example_room)) ! 1 ! 2 \<and>
   \<not> sensor_mask (projr (set_sensor_region 1 3 example_room)) ! 0 ! 2"
proof -
  have v: "init (example_config 4 4 1 (1 / 10) 100) = Inr example_room"
    "(0::nat) < ny example_room" "(0::nat) < nx example_room" "wf example_room"
    "set_sensor_region 1 3 example_room = Inr (projr (set_sensor_region 1 3 example_room))"
    "0 \<le> py_round (1 / dx example_room)" "0 \<le> py_round (3 / dx example_room)"
    "ny example_room = 4" "nx example_room = 4"
    "py_round (1 / dx example_room) = 1" "py_round (3 / dx example_room) = 3"
    by code_simp+
  note t = sensor_mask_cells [of "example_config 4 4 1 (1 / 10) 100" 1 3]
  note t1 = t [THEN conjunct1, rule_format, OF v(1)]
  note t2 = t [THEN conjunct2, rule_format, OF conjI [OF v(4) conjI [OF v(5) conjI [OF v(6) v(7)]]]]
  have a: "sensor_mask example_room ! 0 ! 0"
    by (rule t1 [of 0 0]) (simp add: v(8,9))
  have r12: "(1::nat) < ny example_room \<and> (2::nat) < nx example_room"
    and r02: "(0::nat) < ny example_room \<and> (2::nat) < nx example_room"
    by (simp_all add: v(8,9))
  have b: "sensor_mask (projr (set_sensor_region 1 3 example_room)) ! 1 ! 2"
    unfolding t2 [OF r12] by (simp add: v(8-11))
  have c: "\<not> sensor_mask (projr (set_sensor_region 1 3 example_room)) ! 0 ! 2"
    unfolding t2 [OF r02] by (simp add: v(8-11))
  show ?thesis
    by (intro conjI v(1-7) a b c)
qed

subsection \<open>C8: radiator cells are interior cells\<close>

text \<open>
  C8: after every \<^verbatim>\<open>add_radiator\<close> on a well-formed solver, whatever the rectangle, the
  mask of the heated cells \<^verbatim>\<open>mask_inner\<close> is the interior \<^verbatim>\<open>radiator_mask[1:-1, 1:-1]\<close>: it
  has \<open>ny - 2\<close> rows and \<open>nx - 2\<close> columns, and its cell \<open>(i, j)\<close> is the cell
  \<open>(i + 1, j + 1)\<close> of the field. \<^verbatim>\<open>active_cells_count\<close> is the number of interior cells
  set in \<^verbatim>\<open>radiator_mask\<close>. The update of the interior in the next \<^verbatim>\<open>step()\<close> leaves every
  boundary cell as it was, and gives an interior cell outside the mask the diffusion term
  only: heat enters at interior radiator cells and nowhere else.
\<close>

theorem heating_cells_are_interior:
  assumes "wf s" and "add_radiator x_start y_start width height s = Inr s'"
  shows "mask_inner s' = Some (view_inner (radiator_mask s')) \<and>
     shape_ok (ny s' - 2) (nx s' - 2) (view_inner (radiator_mask s')) \<and>
     (\<forall>i j. i < ny s' - 2 \<and> j < nx s' - 2 \<longrightarrow>
        view_inner (radiator_mask s') ! i ! j = radiator_mask s' ! (i + 1) ! (j + 1)) \<and>
     active_cells_count s' =
       card {(i, j). 1 \<le> i \<and> i + 1 < ny s' \<and> 1 \<le> j \<and> j + 1 < nx s' \<and> radiator_mask s' ! i ! j} \<and>
     (\<forall>s1. update_interior s' = Inr s1 \<longrightarrow>
        (\<forall>i j. i < ny s' \<and> j < nx s' \<and> (i = 0 \<or> i + 1 = ny s' \<or> j = 0 \<or> j + 1 = nx s') \<longrightarrow>
           u s1 ! i ! j = u s' ! i ! j)) \<and>
     (\<forall>s2. step s' = Inr s2 \<longrightarrow>
        (\<forall>i j. 1 \<le> i \<and> i + 1 < ny s' \<and> 1 \<le> j \<and> j + 1 < nx s' \<and> \<not> radiator_mask s' ! i ! j \<longrightarrow>
           u s2 ! i ! j =
             u s' ! i ! j
             + (alpha s' * dt s') / (dx s')\<^sup>2 *
               (u s' ! (i - 1) ! j + u s' ! (i + 1) ! j + u s' ! i ! (j - 1) + u s' ! i ! (j + 1)
                - 4 * u s' ! i ! j)))"
proof -
  have w: "wf s'" by (rule add_radiator_wf [OF assms])
  note f = add_radiator_fields [OF assms(2)]
  note sh = wf_shapes(2) [OF w]
  show ?thesis
  proof (intro conjI allI impI)
    show "mask_inner s' = Some (view_inner (radiator_mask s'))" by (rule f(1))
    show "shape_ok (ny s' - 2) (nx s' - 2) (view_inner (radiator_mask s'))"
      by (rule shape_view_inner [OF sh])
    show "active_cells_count s' =
       card {(i, j). 1 \<le> i \<and> i + 1 < ny s' \<and> 1 \<le> j \<and> j + 1 < nx s' \<and> radiator_mask s' ! i ! j}"
      unfolding f(2) by (rule count_true_inner_card [OF sh])
  next
    fix i j assume "i < ny s' - 2 \<and> j < nx s' - 2"
    then have "i + 2 < ny s'" "j + 2 < nx s'" by linarith+
    then show "view_inner (radiator_mask s') ! i ! j = radiator_mask s' ! (i + 1) ! (j + 1)"
      by (rule nth_view_inner [OF sh])
  next
    fix s1 i j
    assume s1: "update_interior s' = Inr s1"
      and b: "i < ny s' \<and> j < nx s' \<and> (i = 0 \<or> i + 1 = ny s' \<or> j = 0 \<or> j + 1 = nx s')"
    then have "\<not> (1 \<le> i \<and> i + 1 < ny s' \<and> 1 \<le> j \<and> j + 1 < nx s')" by auto
    then show "u s1 ! i ! j = u s' ! i ! j"
      using update_interior_outer [OF w s1] b by blast
  next
    fix s2 i j
    assume s2: "step s' = Inr s2"
      and b: "1 \<le> i \<and> i + 1 < ny s' \<and> 1 \<le> j \<and> j + 1 < nx s' \<and> \<not> radiator_mask s' ! i ! j"
    show "u s2 ! i ! j =
             u s' ! i ! j
             + (alpha s' * dt s') / (dx s')\<^sup>2 *
               (u s' ! (i - 1) ! j + u s' ! (i + 1) ! j + u s' ! i ! (j - 1) + u s' ! i ! (j + 1)
                - 4 * u s' ! i ! j)"
      using step_interior [OF w s2, of i j] b by simp
  qed
qed

theorem heating_cells_are_interior_witness:
  "wf example_room \<and>
   add_radiator 0 0 2 2 example_room = Inr (projr (add_radiator 0 0 2 2 example_room)) \<and>
   radiator_mask (projr (add_radiator 0 0 2 2 example_room)) ! 0 ! 0 \<and>
   mask_inner (projr (add_radiator 0 0 2 2 example_room)) =
     Some (view_inner (radiator_mask (projr (add_radiator 0 0 2 2 example_room)))) \<and>
   view_inner (radiator_mask (projr (add_radiator 0 0 2 2 example_room))) ! 0 ! 0 =
     radiator_mask (projr (add_radiator 0 0 2 2 example_room)) ! (0 + 1) ! (0 + 1)"
proof -
  have w: "wf example_room" by code_simp
  have a: "add_radiator 0 0 2 2 example_room = Inr (projr (add_radiator 0 0 2 2 example_room))"
    by code_simp
  have c: "radiator_mask (projr (add_radiator 0 0 2 2 example_room)) ! 0 ! 0" by code_simp
  have d: "(0::nat) < ny (projr (add_radiator 0 0 2 2 example_room)) - 2 \<and>
           (0::nat) < nx (projr (add_radiator 0 0 2 2 example_room)) - 2"
    by code_simp
  note t = heating_cells_are_interior [OF w a]
  show ?thesis
    by (intro conjI w a c t [THEN conjunct1]
          t [THEN conjunct2, THEN conjunct2, THEN conjunct1, rule_format, OF d])
qed

subsection \<open>C9: a radiator outside the domain\<close>

text \<open>
  C9: a radiator of width \<open>0\<close>, or one whose rectangle lies outside the domain, leaves no
  active cell, a heating rate of \<open>0\<close> and an energy account that no step changes. The code
  clamps the upper bounds of the rectangle only. On the room of four by four cells
  without radiators, \<^verbatim>\<open>add_radiator(-3, -3, 1, 1)\<close> has the index range \<open>[-3, -2)\<close> on both
  axes, which a Python slice counts from the end: the interior cell in row 1, column 1
  becomes a radiator cell, the heating rate is \<open>10\<close>, and the next step adds \<open>10\<close> to
  \<^verbatim>\<open>total_energy\<close>.
\<close>

theorem radiator_outside_domain_heats:
  "active_cells_count (projr (add_radiator (- 3) (- 3) 1 1 example_room)) = 1 \<and>
   heating_factor_per_step (projr (add_radiator (- 3) (- 3) 1 1 example_room)) = 10 \<and>
   total_energy (projr (step (projr (add_radiator (- 3) (- 3) 1 1 example_room)))) =
     total_energy (projr (add_radiator (- 3) (- 3) 1 1 example_room)) + 10"
  by code_simp

subsection \<open>C10: a step without radiators\<close>

text \<open>
  C10 says that \<^verbatim>\<open>step()\<close> never fails on a solver on which \<^verbatim>\<open>add_radiator\<close> was never
  called. The constructor accepts a grid of one cell; on it, with or without a call of
  \<^verbatim>\<open>clear_radiators\<close>, \<^verbatim>\<open>step()\<close> raises \<^verbatim>\<open>IndexError\<close> in the boundary pass.
\<close>

theorem step_fails_on_one_cell_without_radiator:
  "init (example_config 1 1 1 (1 / 10) 100) = Inr example_one_cell \<and>
   apply_calls [Clear_radiators] example_one_cell = Inr (clear_radiators example_one_cell) \<and>
   step example_one_cell = Inl IndexError \<and>
   step (clear_radiators example_one_cell) = Inl IndexError"
  by code_simp

text \<open>
  C10 (amended): on a solver that was constructed and then went through any sequence of
  calls without \<^verbatim>\<open>add_radiator\<close> (\<^verbatim>\<open>clear_radiators\<close>, \<^verbatim>\<open>set_windows\<close>,
  \<^verbatim>\<open>set_sensor_region\<close>, \<^verbatim>\<open>step\<close> and \<^verbatim>\<open>run\<close> may occur), \<^verbatim>\<open>mask_inner\<close> does not exist and
  \<^verbatim>\<open>active_cells_count\<close> is \<open>0\<close>, so \<^verbatim>\<open>step()\<close> never reaches the read of \<^verbatim>\<open>mask_inner\<close>: it
  does not raise \<^verbatim>\<open>AttributeError\<close>, and it injects no heat: \<^verbatim>\<open>total_energy\<close> is unchanged
  and every interior cell changes by the diffusion term only. On a grid with at least
  two rows and two columns it returns normally; on a smaller grid it raises
  \<^verbatim>\<open>IndexError\<close>.
\<close>

theorem step_without_radiator:
  assumes "init c = Inr s0" and "apply_calls cs s0 = Inr s"
    and "list_all (\<lambda>c. \<not> is_add_radiator c) cs"
  shows "mask_inner s = None \<and> active_cells_count s = 0 \<and>
     update_interior s \<noteq> Inl AttributeError \<and> step s \<noteq> Inl AttributeError \<and>
     (2 \<le> nx s \<and> 2 \<le> ny s \<longrightarrow> (\<exists>s'. step s = Inr s')) \<and>
     (nx s < 2 \<or> ny s < 2 \<longrightarrow> step s = Inl IndexError) \<and>
     (\<forall>s'. step s = Inr s' \<longrightarrow>
        total_energy s' = total_energy s \<and>
        (\<forall>i j. 1 \<le> i \<and> i + 1 < ny s \<and> 1 \<le> j \<and> j + 1 < nx s \<longrightarrow>
           u s' ! i ! j =
             u s ! i ! j
             + (alpha s * dt s) / (dx s)\<^sup>2 *
               (u s ! (i - 1) ! j + u s ! (i + 1) ! j + u s ! i ! (j - 1) + u s ! i ! (j + 1)
                - 4 * u s ! i ! j)))"
proof -
  have inv: "wf s \<and> mask_inner s = None"
    by (rule apply_calls_no_add [OF init_wf [OF assms(1)] init_mask_inner [OF assms(1)] assms(3,2)])
  then have w: "wf s" and m: "mask_inner s = None" by simp_all
  have cnt: "active_cells_count s = 0"
    using w m by (simp add: wf_def)
  have ui: "update_interior s \<noteq> Inl AttributeError"
    using update_interior_total [OF w] by auto
  have st: "step s \<noteq> Inl AttributeError"
  proof (cases "2 \<le> nx s \<and> 2 \<le> ny s")
    case True
    then show ?thesis using step_total [OF w] by auto
  next
    case False
    then have "nx s < 2 \<or> ny s < 2" by auto
    then show ?thesis using step_small [OF w] by simp
  qed
  show ?thesis
  proof (intro conjI allI impI)
    show "\<exists>s'. step s = Inr s'" if "2 \<le> nx s \<and> 2 \<le> ny s"
      using step_total [OF w] that by blast
  next
    show "step s = Inl IndexError" if "nx s < 2 \<or> ny s < 2"
      using that by (rule step_small [OF w])
  next
    fix s' assume s': "step s = Inr s'"
    show "total_energy s' = total_energy s"
      using step_frame(2) [OF w s'] cnt by simp
    fix i j assume "1 \<le> i \<and> i + 1 < ny s \<and> 1 \<le> j \<and> j + 1 < nx s"
    then show "u s' ! i ! j =
             u s ! i ! j
             + (alpha s * dt s) / (dx s)\<^sup>2 *
               (u s ! (i - 1) ! j + u s ! (i + 1) ! j + u s ! i ! (j - 1) + u s ! i ! (j + 1)
                - 4 * u s ! i ! j)"
      using step_interior [OF w s', of i j] cnt by simp
  qed (rule m cnt ui st)+
qed

theorem step_without_radiator_witness:
  "init (example_config 4 4 1 (1 / 10) 100) = Inr example_room \<and>
   apply_calls [Clear_radiators, Set_windows True False, Step] example_room =
     Inr (projr (apply_calls [Clear_radiators, Set_windows True False, Step] example_room)) \<and>
   list_all (\<lambda>c. \<not> is_add_radiator c) [Clear_radiators, Set_windows True False, Step] \<and>
   step (projr (apply_calls [Clear_radiators, Set_windows True False, Step] example_room))
     \<noteq> Inl AttributeError \<and>
   mask_inner (projr (apply_calls [Clear_radiators, Set_windows True False, Step] example_room)) = None"
proof -
  have a: "init (example_config 4 4 1 (1 / 10) 100) = Inr example_room" by code_simp
  have "\<not> isl (apply_calls [Clear_radiators, Set_windows True False, Step] example_room)"
    by code_simp
  then have b: "apply_calls [Clear_radiators, Set_windows True False, Step] example_room =
     Inr (projr (apply_calls [Clear_radiators, Set_windows True False, Step] example_room))"
    by (rule not_isl_projr)
  have l: "list_all (\<lambda>c. \<not> is_add_radiator c) [Clear_radiators, Set_windows True False, Step]"
    by simp
  note t = step_without_radiator [OF a b l]
  show ?thesis
    by (intro conjI a b l t [THEN conjunct1]
          t [THEN conjunct2, THEN conjunct2, THEN conjunct2, THEN conjunct1])
qed

end
